theory Spec2Isabelle
  imports Main
begin

section \<open>Python values, rows and the record store\<close>

text \<open>
  The rows that the store hands back are Python dictionaries from column names to
  dynamically typed values. The values that occur in \<^verbatim>\<open>security/auth.py\<close> and
  \<^verbatim>\<open>security/data_protection.py\<close> are \<^verbatim>\<open>None\<close>, booleans, integers, strings and
  lists of strings (the role list). Timestamps (\<^verbatim>\<open>datetime\<close> values and their ISO
  renderings) are integers: seconds since the epoch.
\<close>

datatype pyval = VNone | VBool bool | VInt int | VStr string | VStrs "string list"

type_synonym row = "string \<rightharpoonup> pyval"

text \<open>Python truthiness, as used by \<^verbatim>\<open>if x:\<close> and \<^verbatim>\<open>not x\<close>.\<close>

fun truthy :: "pyval \<Rightarrow> bool" where
  "truthy VNone = False"
| "truthy (VBool b) = b"
| "truthy (VInt n) = (n \<noteq> 0)"
| "truthy (VStr s) = (s \<noteq> [])"
| "truthy (VStrs l) = (l \<noteq> [])"

text \<open>\<^verbatim>\<open>d.get(k, default)\<close> on a row.\<close>

definition dict_get :: "row \<Rightarrow> string \<Rightarrow> pyval \<Rightarrow> pyval" where
  "dict_get d k dflt = (case d k of None \<Rightarrow> dflt | Some v \<Rightarrow> v)"

text \<open>Exceptions that the modelled code can raise.\<close>

datatype exn = StoreError string | KeyError string | TypeError | ValueError | InvalidToken

text \<open>\<^verbatim>\<open>str(e)\<close>, as the log messages print it.\<close>

fun exn_str :: "exn \<Rightarrow> string" where
  "exn_str (StoreError t) = ''store error on '' @ t"
| "exn_str (KeyError k) = k"
| "exn_str TypeError = ''type error''"
| "exn_str ValueError = ''value error''"
| "exn_str InvalidToken = ''invalid token''"

section \<open>Token service (\<^verbatim>\<open>JWTManager\<close>)\<close>

text \<open>
  A token is either a claims dictionary signed with some key, or a string that does not
  decode at all. \<^verbatim>\<open>jwt.encode\<close> signs; \<^verbatim>\<open>jwt.decode\<close> accepts a token only when it was
  signed with the verifying key and, when it carries an \<^verbatim>\<open>exp\<close> claim, that claim is an
  integer strictly greater than the current time. Claims are kept as an association list
  in the order the source writes them; \<^verbatim>\<open>payload.get\<close> and \<^verbatim>\<open>payload[k]\<close> read it
  with \<^const>\<open>map_of\<close>.
\<close>

type_synonym payload = "(string \<times> pyval) list"

datatype jwt = Signed string payload | Malformed

definition JWT_ACCESS_TOKEN_EXPIRES :: int where
  "JWT_ACCESS_TOKEN_EXPIRES = 3600"

definition JWT_REFRESH_TOKEN_EXPIRES :: int where
  "JWT_REFRESH_TOKEN_EXPIRES = 30 * 86400"

definition jwt_encode :: "payload \<Rightarrow> string \<Rightarrow> jwt" where
  "jwt_encode p key = Signed key p"

record token_pair =
  access_token :: jwt
  refresh_token :: jwt
  expires_in :: int

definition generate_tokens :: "string \<Rightarrow> int \<Rightarrow> pyval \<Rightarrow> pyval \<Rightarrow> pyval \<Rightarrow> token_pair" where
  "generate_tokens secret_key now user_id email roles =
     (let access_payload =
            [(''user_id'', user_id), (''email'', email), (''roles'', roles),
             (''type'', VStr ''access''), (''iat'', VInt now),
             (''exp'', VInt (now + JWT_ACCESS_TOKEN_EXPIRES))];
          refresh_payload =
            [(''user_id'', user_id), (''email'', email),
             (''type'', VStr ''refresh''), (''iat'', VInt now),
             (''exp'', VInt (now + JWT_REFRESH_TOKEN_EXPIRES))]
      in \<lparr> access_token = jwt_encode access_payload secret_key,
           refresh_token = jwt_encode refresh_payload secret_key,
           expires_in = JWT_ACCESS_TOKEN_EXPIRES \<rparr>)"

text \<open>
  \<^verbatim>\<open>verify_token\<close>: both \<^verbatim>\<open>ExpiredSignatureError\<close> and every other
  \<^verbatim>\<open>InvalidTokenError\<close> collapse to \<^verbatim>\<open>None\<close>.
\<close>

definition verify_token :: "string \<Rightarrow> int \<Rightarrow> jwt \<Rightarrow> payload option" where
  "verify_token secret_key now tok =
     (case tok of
        Malformed \<Rightarrow> None
      | Signed k p \<Rightarrow>
          if k \<noteq> secret_key then None
          else (case map_of p ''exp'' of
                  None \<Rightarrow> Some p
                | Some (VInt e) \<Rightarrow> if e \<le> now then None else Some p
                | Some _ \<Rightarrow> None))"

text \<open>
  \<^verbatim>\<open>refresh_access_token\<close>. The function has no exception handler of its own, so a
  missing \<^verbatim>\<open>user_id\<close> or \<^verbatim>\<open>email\<close> claim leaves it as a \<^verbatim>\<open>KeyError\<close>. The test
  \<^verbatim>\<open>not payload\<close> is true for \<^verbatim>\<open>None\<close> and for the empty dictionary.
\<close>

definition refresh_access_token :: "string \<Rightarrow> int \<Rightarrow> jwt \<Rightarrow> exn + jwt option" where
  "refresh_access_token secret_key now refresh_tok =
     (case verify_token secret_key now refresh_tok of
        None \<Rightarrow> Inr None
      | Some p \<Rightarrow>
          if p = [] \<or> map_of p ''type'' \<noteq> Some (VStr ''refresh'') then Inr None
          else (case map_of p ''user_id'' of
                  None \<Rightarrow> Inl (KeyError ''user_id'')
                | Some uid \<Rightarrow>
                   (case map_of p ''email'' of
                      None \<Rightarrow> Inl (KeyError ''email'')
                    | Some em \<Rightarrow>
                        Inr (Some (jwt_encode
                          [(''user_id'', uid), (''email'', em),
                           (''roles'', (case map_of p ''roles'' of None \<Rightarrow> VStrs [] | Some r \<Rightarrow> r)),
                           (''type'', VStr ''access''), (''iat'', VInt now),
                           (''exp'', VInt (now + JWT_ACCESS_TOKEN_EXPIRES))]
                          secret_key)))))"

text \<open>The \<^verbatim>\<open>roles\<close> claim carried by a token, if it is a signed token with that claim.\<close>

definition roles_claim :: "jwt \<Rightarrow> pyval option" where
  "roles_claim tok = (case tok of Malformed \<Rightarrow> None | Signed k p \<Rightarrow> map_of p ''roles'')"

section \<open>The record store adapter\<close>

text \<open>
  The store is reached through the query builder of the database client:
  \<^verbatim>\<open>table(t).select(cols).eq(k, v).execute()\<close>, \<^verbatim>\<open>table(t).insert(row).execute()\<close>,
  \<^verbatim>\<open>table(t).update(patch).eq(k, v).execute()\<close> and
  \<^verbatim>\<open>table(t).delete().eq(k, v).execute()\<close>. A table is the list of its rows in
  insertion order. Every call may raise; which calls raise is part of the environment:
  \<open>faults\<close> lists the (operation, table) pairs whose \<^verbatim>\<open>execute()\<close> raises.
\<close>

datatype store_op = OpSelect | OpInsert | OpUpdate | OpDelete

datatype log_event =
    AUTH_ATTEMPT string bool string string
  | SECURITY_EVENT string pyval string string
  | LOG_INFO string
  | LOG_RETENTION string nat
  | LOG_ERROR string

record world =
  tables :: "string \<Rightarrow> row list"
  log :: "log_event list"

text \<open>
  The environment of one call: the libraries the code calls (\<^verbatim>\<open>bcrypt.checkpw\<close>,
  \<^verbatim>\<open>Fernet.decrypt\<close>, \<^verbatim>\<open>pyotp.TOTP.verify\<close>, \<open>row_encrypt\<close> and
  \<open>bundle_encrypt\<close> for \<^verbatim>\<open>encrypt_sensitive_data(json.dumps(...))\<close> of a row and of an
  export, \<open>bundle_hash\<close> for the SHA-256 digest of \<^verbatim>\<open>json.dumps(data, sort_keys=True)\<close>;
  a call that raises returns \<open>None\<close>), the signing key, the reading of \<^verbatim>\<open>datetime.utcnow()\<close>, the origin of the
  request, and the store calls that raise.
\<close>

text \<open>
  The dictionary that \<^verbatim>\<open>export_user_data\<close> returns: the user id, the export timestamp
  and, under \<^verbatim>\<open>data\<close>, one collection of rows per exported table.
\<close>

record export_bundle =
  bundle_user_id :: string
  export_timestamp :: int
  data :: "string \<rightharpoonup> row list"

record env =
  checkpw :: "string \<Rightarrow> string \<Rightarrow> bool option"
  fernet_decrypt :: "string \<Rightarrow> string option"
  totp_verify :: "string \<Rightarrow> string \<Rightarrow> bool"
  row_encrypt :: "row \<Rightarrow> string option"
  bundle_hash :: "export_bundle \<Rightarrow> string option"
  bundle_encrypt :: "export_bundle \<Rightarrow> string option"
  jwt_secret_key :: string
  utcnow :: int
  remote_addr :: string
  user_agent :: string
  faults :: "(store_op \<times> string) list"

definition raises :: "env \<Rightarrow> store_op \<Rightarrow> string \<Rightarrow> bool" where
  "raises e oper t = ((oper, t) \<in> set (faults e))"

definition col_eq :: "string \<Rightarrow> pyval \<Rightarrow> row \<Rightarrow> bool" where
  "col_eq k v r = (r k = Some v)"

definition db_select :: "env \<Rightarrow> world \<Rightarrow> string \<Rightarrow> (row \<Rightarrow> bool) \<Rightarrow> exn + row list" where
  "db_select e w t P =
     (if raises e OpSelect t then Inl (StoreError t) else Inr (filter P (tables w t)))"

definition db_insert :: "env \<Rightarrow> world \<Rightarrow> string \<Rightarrow> row \<Rightarrow> exn + world" where
  "db_insert e w t r =
     (if raises e OpInsert t then Inl (StoreError t)
      else Inr (w\<lparr>tables := (tables w)(t := tables w t @ [r])\<rparr>))"

definition db_update :: "env \<Rightarrow> world \<Rightarrow> string \<Rightarrow> row \<Rightarrow> (row \<Rightarrow> bool) \<Rightarrow> exn + world" where
  "db_update e w t patch P =
     (if raises e OpUpdate t then Inl (StoreError t)
      else Inr (w\<lparr>tables := (tables w)(t := map (\<lambda>r. if P r then r ++ patch else r) (tables w t))\<rparr>))"

definition db_delete :: "env \<Rightarrow> world \<Rightarrow> string \<Rightarrow> (row \<Rightarrow> bool) \<Rightarrow> exn + world" where
  "db_delete e w t P =
     (if raises e OpDelete t then Inl (StoreError t)
      else Inr (w\<lparr>tables := (tables w)(t := filter (\<lambda>r. \<not> P r) (tables w t))\<rparr>))"

definition add_log :: "log_event \<Rightarrow> world \<Rightarrow> world" where
  "add_log ev w = w\<lparr>log := log w @ [ev]\<rparr>"

section \<open>Authentication manager (\<^verbatim>\<open>AuthenticationManager.authenticate_user\<close>)\<close>

text \<open>
  The result dictionary of \<^verbatim>\<open>authenticate_user\<close>: \<^verbatim>\<open>success\<close> is always present, the
  other keys are present in some results only (\<open>None\<close> when the key is absent).
\<close>

record user_info =
  info_id :: pyval
  info_email :: pyval
  info_full_name :: pyval
  info_roles :: pyval

record auth_response =
  success :: bool
  error :: "string option"
  requires_mfa :: "bool option"
  user :: "user_info option"
  tokens :: "token_pair option"

definition failure_response :: "string \<Rightarrow> auth_response" where
  "failure_response msg =
     \<lparr> success = False, error = Some msg, requires_mfa = None, user = None, tokens = None \<rparr>"

definition mfa_required_response :: auth_response where
  "mfa_required_response =
     \<lparr> success = False, error = Some ''MFA token required'', requires_mfa = Some True,
       user = None, tokens = None \<rparr>"

definition log_auth_attempt :: "env \<Rightarrow> string \<Rightarrow> bool \<Rightarrow> world \<Rightarrow> world" where
  "log_auth_attempt e email ok w = add_log (AUTH_ATTEMPT email ok (remote_addr e) (user_agent e)) w"

definition log_security_event :: "env \<Rightarrow> string \<Rightarrow> pyval \<Rightarrow> string \<Rightarrow> world \<Rightarrow> world" where
  "log_security_event e event_type user_id details w =
     add_log (SECURITY_EVENT event_type user_id details (remote_addr e)) w"

text \<open>
  \<^verbatim>\<open>self.encryption.verify_password(password, user['password_hash'])\<close>: a missing key is
  a \<^verbatim>\<open>KeyError\<close>, a hash that is not a string has no \<^verbatim>\<open>encode\<close>, and \<^verbatim>\<open>bcrypt\<close>
  itself raises on a malformed hash.
\<close>

definition verify_password :: "env \<Rightarrow> string \<Rightarrow> row \<Rightarrow> exn + bool" where
  "verify_password e password usr =
     (case usr ''password_hash'' of
        None \<Rightarrow> Inl (KeyError ''password_hash'')
      | Some (VStr h) \<Rightarrow> (case checkpw e password h of None \<Rightarrow> Inl ValueError | Some b \<Rightarrow> Inr b)
      | Some _ \<Rightarrow> Inl TypeError)"

text \<open>\<^verbatim>\<open>x + 1\<close> on a Python value (\<^verbatim>\<open>bool\<close> is a subclass of \<^verbatim>\<open>int\<close>).\<close>

fun py_add1 :: "pyval \<Rightarrow> int option" where
  "py_add1 (VInt n) = Some (n + 1)"
| "py_add1 (VBool b) = Some ((if b then 1 else 0) + 1)"
| "py_add1 _ = None"

text \<open>The update dictionary written on a password failure (source lines 356 to 361).\<close>

definition update_data :: "int \<Rightarrow> row" where
  "update_data failed_attempts =
     (if failed_attempts \<ge> 5
      then [''failed_login_attempts'' \<mapsto> VInt failed_attempts, ''account_locked'' \<mapsto> VBool True]
      else [''failed_login_attempts'' \<mapsto> VInt failed_attempts])"

text \<open>
  The branches of the \<^verbatim>\<open>try\<close> block. A result \<open>Inl (x, w)\<close> is the exception \<open>x\<close> raised
  in world \<open>w\<close> (the store writes made before the raise stay); \<open>Inr (r, w)\<close> is a return.
\<close>

definition password_failure ::
  "env \<Rightarrow> world \<Rightarrow> string \<Rightarrow> row \<Rightarrow> (exn \<times> world) + (auth_response \<times> world)" where
  "password_failure e w email usr =
     (case py_add1 (dict_get usr ''failed_login_attempts'' (VInt 0)) of
        None \<Rightarrow> Inl (TypeError, w)
      | Some failed_attempts \<Rightarrow>
         (case usr ''id'' of
            None \<Rightarrow> Inl (KeyError ''id'', w)
          | Some uid \<Rightarrow>
             (case db_update e w ''users'' (update_data failed_attempts) (col_eq ''id'' uid) of
                Inl x \<Rightarrow> Inl (x, w)
              | Inr w' \<Rightarrow>
                  Inr (failure_response ''Invalid credentials'',
                       log_auth_attempt e email False w'))))"

definition login_success ::
  "env \<Rightarrow> world \<Rightarrow> string \<Rightarrow> row \<Rightarrow> (exn \<times> world) + (auth_response \<times> world)" where
  "login_success e w email usr =
     (case usr ''id'' of
        None \<Rightarrow> Inl (KeyError ''id'', w)
      | Some uid \<Rightarrow>
         (case db_update e w ''users''
                 [''failed_login_attempts'' \<mapsto> VInt 0, ''last_login'' \<mapsto> VInt (utcnow e)]
                 (col_eq ''id'' uid) of
            Inl x \<Rightarrow> Inl (x, w)
          | Inr w' \<Rightarrow>
             (case usr ''email'' of
                None \<Rightarrow> Inl (KeyError ''email'', w')
              | Some em \<Rightarrow>
                 (let roles = dict_get usr ''roles'' (VStrs [''user'']);
                      toks = generate_tokens (jwt_secret_key e) (utcnow e) uid em roles;
                      w'' = log_auth_attempt e email True w'
                  in (case usr ''full_name'' of
                        None \<Rightarrow> Inl (KeyError ''full_name'', w'')
                      | Some fn \<Rightarrow>
                          Inr (\<lparr> success = True, error = None, requires_mfa = None,
                                 user = Some \<lparr> info_id = uid, info_email = em,
                                               info_full_name = fn, info_roles = roles \<rparr>,
                                 tokens = Some toks \<rparr>, w''))))))"

definition mfa_check ::
  "env \<Rightarrow> world \<Rightarrow> string \<Rightarrow> string option \<Rightarrow> row \<Rightarrow> (exn \<times> world) + (auth_response \<times> world)" where
  "mfa_check e w email mfa_token usr =
     (if truthy (dict_get usr ''mfa_enabled'' (VBool False)) then
        (case mfa_token of
           None \<Rightarrow> Inr (mfa_required_response, w)
         | Some tok \<Rightarrow>
            if tok = [] then Inr (mfa_required_response, w)
            else (case usr ''mfa_secret'' of
                    None \<Rightarrow> Inl (KeyError ''mfa_secret'', w)
                  | Some (VStr enc) \<Rightarrow>
                     (case fernet_decrypt e enc of
                        None \<Rightarrow> Inl (InvalidToken, w)
                      | Some decrypted_secret \<Rightarrow>
                         if \<not> totp_verify e decrypted_secret tok then
                           (case usr ''id'' of
                              None \<Rightarrow> Inl (KeyError ''id'', w)
                            | Some uid \<Rightarrow>
                                Inr (failure_response ''Invalid MFA token'',
                                     log_security_event e ''MFA_FAILURE'' uid
                                       (''Invalid MFA token for '' @ email) w))
                         else login_success e w email usr)
                  | Some _ \<Rightarrow> Inl (TypeError, w)))
      else login_success e w email usr)"

definition authenticate_try ::
  "env \<Rightarrow> world \<Rightarrow> string \<Rightarrow> string \<Rightarrow> string option \<Rightarrow> (exn \<times> world) + (auth_response \<times> world)" where
  "authenticate_try e w email password mfa_token =
     (case db_select e w ''users'' (col_eq ''email'' (VStr email)) of
        Inl x \<Rightarrow> Inl (x, w)
      | Inr [] \<Rightarrow> Inr (failure_response ''Invalid credentials'', log_auth_attempt e email False w)
      | Inr (usr # _) \<Rightarrow>
          if truthy (dict_get usr ''account_locked'' (VBool False)) then
            Inr (failure_response ''Account is locked due to multiple failed login attempts'', w)
          else (case verify_password e password usr of
                  Inl x \<Rightarrow> Inl (x, w)
                | Inr False \<Rightarrow> password_failure e w email usr
                | Inr True \<Rightarrow> mfa_check e w email mfa_token usr))"

text \<open>\<^verbatim>\<open>authenticate_user\<close>: the \<^verbatim>\<open>try\<close> block and its \<^verbatim>\<open>except Exception\<close> handler.\<close>

definition authenticate_user ::
  "env \<Rightarrow> world \<Rightarrow> string \<Rightarrow> string \<Rightarrow> string option \<Rightarrow> auth_response \<times> world" where
  "authenticate_user e w email password mfa_token =
     (case authenticate_try e w email password mfa_token of
        Inl (x, w') \<Rightarrow>
          (failure_response ''Authentication failed due to system error'',
           log_security_event e ''AUTH_ERROR'' (VStr ''unknown'')
             (''Authentication error for '' @ email @ '': '' @ exn_str x) w')
      | Inr r \<Rightarrow> r)"

text \<open>
  A run of consecutive login attempts on one account: each attempt starts from the world
  the previous one left.
\<close>

fun login_attempts :: "env \<Rightarrow> world \<Rightarrow> string \<Rightarrow> (string \<times> string option) list \<Rightarrow> world" where
  "login_attempts e w email [] = w"
| "login_attempts e w email ((password, mfa_token) # later) =
     login_attempts e (snd (authenticate_user e w email password mfa_token)) email later"

section \<open>Data protection manager (\<^verbatim>\<open>DataProtectionManager\<close>)\<close>

datatype DataClassification = PUBLIC | INTERNAL | CONFIDENTIAL | RESTRICTED

fun classification_value :: "DataClassification \<Rightarrow> string" where
  "classification_value PUBLIC = ''public''"
| "classification_value INTERNAL = ''internal''"
| "classification_value CONFIDENTIAL = ''confidential''"
| "classification_value RESTRICTED = ''restricted''"

record DataRetentionPolicy =
  data_type :: string
  retention_period_days :: int
  classification :: DataClassification
  auto_delete :: bool
  archive_before_delete :: bool

text \<open>
  The policy table built in \<^verbatim>\<open>__init__\<close>, in insertion order (the order in which
  \<^verbatim>\<open>retention_policies.items()\<close> yields it). The dataclass defaults
  \<^verbatim>\<open>auto_delete=True\<close> and \<^verbatim>\<open>archive_before_delete=True\<close> are written out.
\<close>

definition retention_policies :: "(string \<times> DataRetentionPolicy) list" where
  "retention_policies =
     [(''journal_entries'',
         \<lparr> data_type = ''journal_entries'', retention_period_days = 2555,
           classification = CONFIDENTIAL, auto_delete = True, archive_before_delete = True \<rparr>),
      (''health_metrics'',
         \<lparr> data_type = ''health_metrics'', retention_period_days = 2555,
           classification = CONFIDENTIAL, auto_delete = True, archive_before_delete = True \<rparr>),
      (''business_activities'',
         \<lparr> data_type = ''business_activities'', retention_period_days = 2555,
           classification = CONFIDENTIAL, auto_delete = True, archive_before_delete = True \<rparr>),
      (''productivity_sessions'',
         \<lparr> data_type = ''productivity_sessions'', retention_period_days = 1095,
           classification = INTERNAL, auto_delete = True, archive_before_delete = True \<rparr>),
      (''ai_interactions'',
         \<lparr> data_type = ''ai_interactions'', retention_period_days = 365,
           classification = INTERNAL, auto_delete = True, archive_before_delete = True \<rparr>),
      (''audit_logs'',
         \<lparr> data_type = ''audit_logs'', retention_period_days = 2555,
           classification = RESTRICTED, auto_delete = False, archive_before_delete = True \<rparr>),
      (''user_sessions'',
         \<lparr> data_type = ''user_sessions'', retention_period_days = 90,
           classification = INTERNAL, auto_delete = True, archive_before_delete = True \<rparr>)]"

definition get_data_classification :: "string \<Rightarrow> DataClassification" where
  "get_data_classification dt =
     (case map_of retention_policies dt of
        Some policy \<Rightarrow> classification policy
      | None \<Rightarrow> INTERNAL)"

definition opt_str :: "string option \<Rightarrow> pyval" where
  "opt_str x = (case x of None \<Rightarrow> VNone | Some s \<Rightarrow> VStr s)"

definition audit_record ::
  "env \<Rightarrow> string \<Rightarrow> string \<Rightarrow> string \<Rightarrow> string \<Rightarrow> string \<Rightarrow> string option \<Rightarrow> row" where
  "audit_record e user_id dt action ip_address agent details =
     [''user_id'' \<mapsto> VStr user_id, ''data_type'' \<mapsto> VStr dt, ''action'' \<mapsto> VStr action,
      ''ip_address'' \<mapsto> VStr ip_address, ''user_agent'' \<mapsto> VStr agent,
      ''details'' \<mapsto> opt_str details, ''timestamp'' \<mapsto> VInt (utcnow e),
      ''classification'' \<mapsto> VStr (classification_value (get_data_classification dt))]"

text \<open>\<^verbatim>\<open>log_data_access\<close>: a failed insert is logged and otherwise ignored.\<close>

definition log_data_access ::
  "env \<Rightarrow> world \<Rightarrow> string \<Rightarrow> string \<Rightarrow> string \<Rightarrow> string \<Rightarrow> string \<Rightarrow> string option \<Rightarrow> world" where
  "log_data_access e w user_id dt action ip_address agent details =
     (case db_insert e w ''audit_logs'' (audit_record e user_id dt action ip_address agent details) of
        Inr w' \<Rightarrow> add_log (LOG_INFO (''Data access logged: '' @ user_id @ '' - '' @ action @ '' - '' @ dt)) w'
      | Inl x \<Rightarrow> add_log (LOG_ERROR (''Failed to log data access: '' @ exn_str x)) w)"

subsection \<open>Consent\<close>

text \<open>
  \<^verbatim>\<open>select('consent_type, granted')\<close> returns rows with exactly the selected columns; a
  column without a value is null. \<^verbatim>\<open>order('timestamp', desc=True)\<close> is the store's
  descending sort: stable, and rows without an integer timestamp come first, as nulls
  do in a descending SQL sort.
\<close>

definition select_columns :: "string list \<Rightarrow> row \<Rightarrow> row" where
  "select_columns cols r = (\<lambda>k. if k \<in> set cols then Some (dict_get r k VNone) else None)"

definition int_col :: "string \<Rightarrow> row \<Rightarrow> int option" where
  "int_col k r = (case r k of Some (VInt t) \<Rightarrow> Some t | _ \<Rightarrow> None)"

definition order_desc :: "string \<Rightarrow> row list \<Rightarrow> row list" where
  "order_desc k rows =
     filter (\<lambda>r. int_col k r = None) rows
     @ sort_key (\<lambda>r. - the (int_col k r)) (filter (\<lambda>r. int_col k r \<noteq> None) rows)"

text \<open>
  The loop of \<^verbatim>\<open>get_user_consents\<close>: the first record seen for a consent type decides.
\<close>

fun latest_consents :: "row list \<Rightarrow> (pyval \<rightharpoonup> pyval) \<Rightarrow> exn + (pyval \<rightharpoonup> pyval)" where
  "latest_consents [] consents = Inr consents"
| "latest_consents (rec # rest) consents =
     (case rec ''consent_type'' of
        None \<Rightarrow> Inl (KeyError ''consent_type'')
      | Some consent_type \<Rightarrow>
          if consents consent_type = None then
            (case rec ''granted'' of
               None \<Rightarrow> Inl (KeyError ''granted'')
             | Some g \<Rightarrow> latest_consents rest (consents(consent_type \<mapsto> g)))
          else latest_consents rest consents)"

definition get_user_consents :: "env \<Rightarrow> world \<Rightarrow> string \<Rightarrow> (pyval \<rightharpoonup> pyval) \<times> world" where
  "get_user_consents e w user_id =
     (case db_select e w ''user_consents'' (col_eq ''user_id'' (VStr user_id)) of
        Inl x \<Rightarrow> (Map.empty, add_log (LOG_ERROR (''Failed to get user consents: '' @ exn_str x)) w)
      | Inr rows \<Rightarrow>
         (case latest_consents
                 (map (select_columns [''consent_type'', ''granted'']) (order_desc ''timestamp'' rows))
                 Map.empty of
            Inl x \<Rightarrow> (Map.empty, add_log (LOG_ERROR (''Failed to get user consents: '' @ exn_str x)) w)
          | Inr consents \<Rightarrow> (consents, w)))"

subsection \<open>Export and deletion\<close>

definition tables_to_export :: "string list" where
  "tables_to_export =
     [''user_profiles'', ''journal_entries'', ''health_metrics'', ''business_activities'',
      ''productivity_sessions'', ''goals'', ''ai_interactions'', ''user_consents'']"

text \<open>
  The export loop: a table whose select raises is exported as the empty list, and the
  failure is logged.
\<close>

fun export_tables ::
  "env \<Rightarrow> string \<Rightarrow> string list \<Rightarrow> (string \<rightharpoonup> row list) \<times> world \<Rightarrow> (string \<rightharpoonup> row list) \<times> world" where
  "export_tables e user_id [] acc = acc"
| "export_tables e user_id (t # ts) (d, w) =
     (case db_select e w t (col_eq ''user_id'' (VStr user_id)) of
        Inr rows \<Rightarrow> export_tables e user_id ts (d(t \<mapsto> rows), w)
      | Inl x \<Rightarrow>
          export_tables e user_id ts
            (d(t \<mapsto> []), add_log (LOG_ERROR (''Failed to export from '' @ t @ '': '' @ exn_str x)) w))"

text \<open>
  \<^verbatim>\<open>export_user_data\<close>. Every store call inside the outer \<^verbatim>\<open>try\<close> has a handler of
  its own, so the outer handler (which returns the empty dictionary) is never entered.
\<close>

definition export_user_data :: "env \<Rightarrow> world \<Rightarrow> string \<Rightarrow> export_bundle \<times> world" where
  "export_user_data e w user_id =
     (let (d, w1) = export_tables e user_id tables_to_export (Map.empty, w);
          w2 = log_data_access e w1 user_id ''all_data'' ''export'' ''system'' ''data_export_system''
                 (Some ''Full data export for GDPR compliance'')
      in (\<lparr> bundle_user_id = user_id, export_timestamp = utcnow e, data = d \<rparr>, w2))"

text \<open>
  \<^verbatim>\<open>_archive_user_data\<close>: the archive record is built outside the \<^verbatim>\<open>try\<close>, so a
  failure of serialisation or encryption leaves the function as an exception; a failed
  insert is logged and ignored.
\<close>

definition archive_user_data :: "env \<Rightarrow> world \<Rightarrow> string \<Rightarrow> export_bundle \<Rightarrow> exn + world" where
  "archive_user_data e w user_id b =
     (case bundle_hash e b of
        None \<Rightarrow> Inl TypeError
      | Some h \<Rightarrow>
         (case bundle_encrypt e b of
            None \<Rightarrow> Inl TypeError
          | Some c \<Rightarrow>
             (case db_insert e w ''archived_user_data''
                     [''user_id'' \<mapsto> VStr user_id, ''archived_at'' \<mapsto> VInt (utcnow e),
                      ''data_hash'' \<mapsto> VStr h, ''encrypted_data'' \<mapsto> VStr c] of
                Inr w' \<Rightarrow> Inr w'
              | Inl x \<Rightarrow> Inr (add_log (LOG_ERROR (''Failed to archive user data: '' @ exn_str x)) w))))"

definition tables_to_delete :: "string list" where
  "tables_to_delete =
     [''ai_interactions'', ''productivity_sessions'', ''business_activities'', ''health_metrics'',
      ''journal_entries'', ''goals'', ''user_consents'', ''user_profiles'']"

text \<open>The deletion loop: a table whose delete raises is skipped, and the failure is logged.\<close>

fun delete_tables :: "env \<Rightarrow> string \<Rightarrow> string list \<Rightarrow> world \<Rightarrow> world" where
  "delete_tables e user_id [] w = w"
| "delete_tables e user_id (t # ts) w =
     (case db_delete e w t (col_eq ''user_id'' (VStr user_id)) of
        Inr w' \<Rightarrow> delete_tables e user_id ts w'
      | Inl x \<Rightarrow>
          delete_tables e user_id ts
            (add_log (LOG_ERROR (''Failed to delete from '' @ t @ '': '' @ exn_str x)) w))"

definition delete_user_data :: "env \<Rightarrow> world \<Rightarrow> string \<Rightarrow> bool \<Rightarrow> bool \<times> world" where
  "delete_user_data e w user_id archive_first =
     (case (if archive_first
            then (let (archived_data, w1) = export_user_data e w user_id
                  in (case archive_user_data e w1 user_id archived_data of
                        Inl x \<Rightarrow> Inl (x, w1)
                      | Inr w2 \<Rightarrow> Inr w2))
            else Inr w) of
        Inl (x, w') \<Rightarrow>
          (False, add_log (LOG_ERROR (''Failed to delete user data: '' @ exn_str x)) w')
      | Inr w' \<Rightarrow>
          (let w3 = delete_tables e user_id tables_to_delete w';
               w4 = log_data_access e w3 user_id ''all_data'' ''delete'' ''system''
                      ''data_deletion_system'' (Some ''Full data deletion for GDPR compliance'')
           in (True, add_log (LOG_INFO (''User data deleted: '' @ user_id)) w4)))"

subsection \<open>Retention sweep\<close>

definition col_lt :: "string \<Rightarrow> int \<Rightarrow> row \<Rightarrow> bool" where
  "col_lt k c r = (case r k of Some (VInt t) \<Rightarrow> t < c | _ \<Rightarrow> False)"

text \<open>
  \<^verbatim>\<open>_archive_record\<close>: \<^verbatim>\<open>record['id']\<close> and the serialisation are outside the
  \<^verbatim>\<open>try\<close>; a failed insert is logged and ignored. The write is a plain insert.
\<close>

definition archive_record :: "env \<Rightarrow> world \<Rightarrow> string \<Rightarrow> row \<Rightarrow> exn + world" where
  "archive_record e w table_name rec =
     (case rec ''id'' of
        None \<Rightarrow> Inl (KeyError ''id'')
      | Some rid \<Rightarrow>
         (case row_encrypt e rec of
            None \<Rightarrow> Inl TypeError
          | Some c \<Rightarrow>
             (case db_insert e w ''archived_records''
                     [''original_table'' \<mapsto> VStr table_name, ''original_id'' \<mapsto> rid,
                      ''user_id'' \<mapsto> dict_get rec ''user_id'' VNone,
                      ''archived_at'' \<mapsto> VInt (utcnow e), ''encrypted_data'' \<mapsto> VStr c] of
                Inr w' \<Rightarrow> Inr w'
              | Inl x \<Rightarrow> Inr (add_log (LOG_ERROR (''Failed to archive record: '' @ exn_str x)) w))))"

text \<open>
  The loop over the selected records of one category: archive (when the policy says so),
  then delete by id. An exception ends the loop; the writes made so far stay.
\<close>

fun sweep_records ::
  "env \<Rightarrow> string \<Rightarrow> DataRetentionPolicy \<Rightarrow> row list \<Rightarrow> world \<Rightarrow> (exn \<times> world) + world" where
  "sweep_records e dt policy [] w = Inr w"
| "sweep_records e dt policy (rec # rest) w =
     (case (if archive_before_delete policy
            then (case archive_record e w dt rec of Inl x \<Rightarrow> Inl (x, w) | Inr w1 \<Rightarrow> Inr w1)
            else Inr w) of
        Inl xw \<Rightarrow> Inl xw
      | Inr w1 \<Rightarrow>
         (case rec ''id'' of
            None \<Rightarrow> Inl (KeyError ''id'', w1)
          | Some rid \<Rightarrow>
             (case db_delete e w1 dt (col_eq ''id'' rid) of
                Inl x \<Rightarrow> Inl (x, w1)
              | Inr w2 \<Rightarrow> sweep_records e dt policy rest w2)))"

text \<open>One iteration of the loop of \<^verbatim>\<open>apply_retention_policies\<close>, for one policy.\<close>

definition sweep_category :: "env \<Rightarrow> string \<times> DataRetentionPolicy \<Rightarrow> world \<Rightarrow> world" where
  "sweep_category e item w =
     (let dt = fst item; policy = snd item in
      if \<not> auto_delete policy then w
      else
        (let cutoff_date = utcnow e - retention_period_days policy * 86400 in
         case db_select e w dt (col_lt ''created_at'' cutoff_date) of
           Inl x \<Rightarrow>
             add_log (LOG_ERROR (''Failed to apply retention policy for '' @ dt @ '': '' @ exn_str x)) w
         | Inr rows \<Rightarrow>
            (let records = map (select_columns [''id'', ''user_id'', ''created_at'']) rows in
             case sweep_records e dt policy records w of
               Inl (x, w') \<Rightarrow>
                 add_log (LOG_ERROR (''Failed to apply retention policy for '' @ dt @ '': '' @ exn_str x)) w'
             | Inr w' \<Rightarrow>
                 if records \<noteq> [] then add_log (LOG_RETENTION dt (length records)) w' else w')))"

definition apply_retention_policies :: "env \<Rightarrow> world \<Rightarrow> world" where
  "apply_retention_policies e w = fold (sweep_category e) retention_policies w"

text \<open>
  The rows of a category that a sweep at the clock reading of \<open>e\<close> selects: those whose
  \<^verbatim>\<open>created_at\<close> is before the cutoff of the category's policy.
\<close>

definition old_rows :: "env \<Rightarrow> world \<Rightarrow> string \<times> DataRetentionPolicy \<Rightarrow> row list" where
  "old_rows e w item =
     filter (col_lt ''created_at'' (utcnow e - retention_period_days (snd item) * 86400))
       (tables w (fst item))"

section \<open>Sample data\<close>

text \<open>
  A user record as \<^verbatim>\<open>register_user\<close> writes it, an environment in which one password
  and one one-time code verify and no store call raises, and a world whose only
  populated table is \<^verbatim>\<open>users\<close>.
\<close>

definition alice_row :: row where
  "alice_row =
     [''id'' \<mapsto> VStr ''u1'', ''email'' \<mapsto> VStr ''alice@example.com'',
      ''password_hash'' \<mapsto> VStr ''HASH'', ''full_name'' \<mapsto> VStr ''Alice'',
      ''mfa_secret'' \<mapsto> VStr ''ENC'', ''mfa_enabled'' \<mapsto> VBool False,
      ''roles'' \<mapsto> VStrs [''user''], ''failed_login_attempts'' \<mapsto> VInt 0,
      ''account_locked'' \<mapsto> VBool False]"

definition demo_env :: env where
  "demo_env =
     \<lparr> checkpw = (\<lambda>p h. Some (p = ''Str0ng!Passw0rd123'' \<and> h = ''HASH'')),
       fernet_decrypt = (\<lambda>c. if c = ''ENC'' then Some ''SECRET'' else None),
       totp_verify = (\<lambda>s c. s = ''SECRET'' \<and> c = ''123456''),
       row_encrypt = (\<lambda>r. Some ''CIPHERTEXT''),
       bundle_hash = (\<lambda>b. Some ''DIGEST''),
       bundle_encrypt = (\<lambda>b. Some ''CIPHERTEXT''),
       jwt_secret_key = ''k'', utcnow = 1000, remote_addr = ''system'', user_agent = [],
       faults = [] \<rparr>"

definition users_world :: "row list \<Rightarrow> world" where
  "users_world rows = \<lparr> tables = (\<lambda>t. if t = ''users'' then rows else []), log = [] \<rparr>"

text \<open>
  A world given by the rows of its non-empty tables, one journal entry of user
  \<^verbatim>\<open>u1\<close>, and an environment in which every delete of the deletion workflow raises.
\<close>

definition world_of :: "(string \<times> row list) list \<Rightarrow> world" where
  "world_of al = \<lparr> tables = (\<lambda>t. case map_of al t of None \<Rightarrow> [] | Some rows \<Rightarrow> rows), log = [] \<rparr>"

definition journal_row :: row where
  "journal_row = [''id'' \<mapsto> VStr ''j1'', ''user_id'' \<mapsto> VStr ''u1'', ''created_at'' \<mapsto> VInt 0]"

definition failing_deletes :: env where
  "failing_deletes = demo_env\<lparr>faults := map (Pair OpDelete) tables_to_delete\<rparr>"

text \<open>A consent record as \<^verbatim>\<open>record_consent\<close> writes it.\<close>

definition consent_row :: "string \<Rightarrow> string \<Rightarrow> bool \<Rightarrow> int \<Rightarrow> row" where
  "consent_row u c g t =
     [''user_id'' \<mapsto> VStr u, ''consent_type'' \<mapsto> VStr c, ''granted'' \<mapsto> VBool g,
      ''timestamp'' \<mapsto> VInt t, ''ip_address'' \<mapsto> VStr ''system'', ''user_agent'' \<mapsto> VStr [],
      ''version'' \<mapsto> VStr ''1.0'']"

text \<open>
  A session record from the epoch, a clock reading at which it is past every retention
  period, and an environment in which deleting from \<^verbatim>\<open>user_sessions\<close> raises.
\<close>

definition session_row :: row where
  "session_row = [''id'' \<mapsto> VStr ''s1'', ''user_id'' \<mapsto> VStr ''u1'', ''created_at'' \<mapsto> VInt 0]"

definition sweep_env :: env where
  "sweep_env = demo_env\<lparr>utcnow := 1000000000\<rparr>"

definition failing_session_delete :: env where
  "failing_session_delete = sweep_env\<lparr>faults := [(OpDelete, ''user_sessions'')]\<rparr>"

section \<open>Token service: properties\<close>

lemma refresh_of_issued:
  assumes "now' < now + JWT_REFRESH_TOKEN_EXPIRES"
  shows "refresh_access_token key now' (refresh_token (generate_tokens key now uid em roles))
         = Inr (Some (Signed key
             [(''user_id'', uid), (''email'', em), (''roles'', VStrs []),
              (''type'', VStr ''access''), (''iat'', VInt now'),
              (''exp'', VInt (now' + JWT_ACCESS_TOKEN_EXPIRES))]))"
  using assms
  by (simp add: refresh_access_token_def generate_tokens_def verify_token_def jwt_encode_def)

lemma refresh_rejects_expired:
  assumes "map_of p ''exp'' = Some (VInt e)" and "e \<le> now"
  shows "refresh_access_token key now (Signed k p) = Inr None"
  using assms by (simp add: refresh_access_token_def verify_token_def)

lemma refresh_rejects_wrong_type:
  assumes "map_of p ''type'' \<noteq> Some (VStr ''refresh'')"
  shows "refresh_access_token key now (Signed k p) = Inr None"
  using assms
  by (auto simp: refresh_access_token_def verify_token_def split: option.splits pyval.splits)

lemma refresh_rejects_access_token:
  "refresh_access_token key now' (access_token (generate_tokens key now uid em roles)) = Inr None"
  by (simp add: generate_tokens_def jwt_encode_def refresh_rejects_wrong_type)

text \<open>
  Claim C1. A refresh token issued by \<^verbatim>\<open>generate_tokens\<close> for a user with roles
  \<^verbatim>\<open>['user']\<close> is refreshed into an access token whose \<^verbatim>\<open>roles\<close> claim is the empty
  list: the refresh payload built by \<^verbatim>\<open>generate_tokens\<close> has no \<^verbatim>\<open>roles\<close> entry, so
  \<^verbatim>\<open>payload.get('roles', [])\<close> in \<^verbatim>\<open>refresh_access_token\<close> takes its default. The
  issued access token of the same pair does carry the roles.
\<close>

theorem refresh_access_token_drops_roles:
  "roles_claim (access_token (generate_tokens ''k'' 1000 (VStr ''u1'') (VStr ''a@b.c'') (VStrs [''user''])))
     = Some (VStrs [''user''])
   \<and> refresh_access_token ''k'' 1001
         (refresh_token (generate_tokens ''k'' 1000 (VStr ''u1'') (VStr ''a@b.c'') (VStrs [''user''])))
     = Inr (Some (Signed ''k''
         [(''user_id'', VStr ''u1''), (''email'', VStr ''a@b.c''), (''roles'', VStrs []),
          (''type'', VStr ''access''), (''iat'', VInt 1001), (''exp'', VInt 4601)]))
   \<and> roles_claim (Signed ''k''
         [(''user_id'', VStr ''u1''), (''email'', VStr ''a@b.c''), (''roles'', VStrs []),
          (''type'', VStr ''access''), (''iat'', VInt 1001), (''exp'', VInt 4601)])
     \<noteq> Some (VStrs [''user''])"
  by (simp add: refresh_access_token_def generate_tokens_def verify_token_def jwt_encode_def
        roles_claim_def JWT_REFRESH_TOKEN_EXPIRES_def JWT_ACCESS_TOKEN_EXPIRES_def)

section \<open>Authentication manager: properties\<close>

lemma select_found:
  assumes "db_select e w ''users'' (col_eq ''email'' (VStr email)) = Inr (usr # rest)"
      and "\<not> truthy (dict_get usr ''account_locked'' (VBool False))"
  shows "authenticate_try e w email password mfa_token =
           (case verify_password e password usr of
              Inl x \<Rightarrow> Inl (x, w)
            | Inr False \<Rightarrow> password_failure e w email usr
            | Inr True \<Rightarrow> mfa_check e w email mfa_token usr)"
  using assms by (simp add: authenticate_try_def)

lemma password_failure_result:
  assumes cnt: "dict_get usr ''failed_login_attempts'' (VInt 0) = VInt n"
      and uid: "usr ''id'' = Some uid"
      and upd: "\<not> raises e OpUpdate ''users''"
  shows "password_failure e w email usr =
           Inr (failure_response ''Invalid credentials'',
                log_auth_attempt e email False
                  (w\<lparr>tables := (tables w)(''users'' :=
                       map (\<lambda>r. if r ''id'' = Some uid then r ++ update_data (n + 1) else r)
                           (tables w ''users''))\<rparr>))"
  using assms by (simp add: password_failure_def db_update_def col_eq_def)

lemma wrong_password_result:
  assumes sel: "db_select e w ''users'' (col_eq ''email'' (VStr email)) = Inr (usr # rest)"
      and unlocked: "\<not> truthy (dict_get usr ''account_locked'' (VBool False))"
      and wrong: "verify_password e password usr = Inr False"
      and cnt: "dict_get usr ''failed_login_attempts'' (VInt 0) = VInt n"
      and uid: "usr ''id'' = Some uid"
      and upd: "\<not> raises e OpUpdate ''users''"
  shows "authenticate_user e w email password mfa_token =
           (failure_response ''Invalid credentials'',
            log_auth_attempt e email False
              (w\<lparr>tables := (tables w)(''users'' :=
                   map (\<lambda>r. if r ''id'' = Some uid then r ++ update_data (n + 1) else r)
                       (tables w ''users''))\<rparr>))"
  by (simp add: authenticate_user_def select_found [OF sel unlocked] wrong
        password_failure_result [OF cnt uid upd])

lemma locked_result:
  assumes "db_select e w ''users'' (col_eq ''email'' (VStr email)) = Inr (usr # rest)"
      and "truthy (dict_get usr ''account_locked'' (VBool False))"
  shows "authenticate_user e w email password mfa_token =
           (failure_response ''Account is locked due to multiple failed login attempts'', w)"
  using assms by (simp add: authenticate_user_def authenticate_try_def)

lemma not_found_result:
  assumes "db_select e w ''users'' (col_eq ''email'' (VStr email)) = Inr []"
  shows "authenticate_user e w email password mfa_token =
           (failure_response ''Invalid credentials'', log_auth_attempt e email False w)"
  using assms by (simp add: authenticate_user_def authenticate_try_def)

lemma update_data_facts:
  "update_data m ''failed_login_attempts'' = Some (VInt m)"
  "(update_data m ''account_locked'' = Some (VBool True)) = (m \<ge> 5)"
  "m < 5 \<Longrightarrow> update_data m ''account_locked'' = None"
  "update_data m ''email'' = None"
  "update_data m ''id'' = None"
  "update_data m ''password_hash'' = None"
  by (simp_all add: update_data_def)

lemma tables_log [simp]:
  "tables (log_auth_attempt e email ok w) = tables w"
  "tables (log_security_event e ty u d w) = tables w"
  "tables (add_log ev w) = tables w"
  by (simp_all add: log_auth_attempt_def log_security_event_def add_log_def)

lemma select_ok:
  "\<not> raises e OpSelect t \<Longrightarrow> db_select e w t P = Inr (filter P (tables w t))"
  by (simp add: db_select_def)

lemma locked_attempts_unchanged:
  assumes "\<not> raises e OpSelect ''users''"
      and "filter (col_eq ''email'' (VStr email)) (tables w ''users'') = usr # rest"
      and "truthy (dict_get usr ''account_locked'' (VBool False))"
  shows "login_attempts e w email tries = w"
proof (induction tries)
  case Nil
  show ?case by simp
next
  case (Cons a tries)
  obtain pw m where a: "a = (pw, m)" by (cases a)
  have "authenticate_user e w email pw m =
          (failure_response ''Account is locked due to multiple failed login attempts'', w)"
    by (rule locked_result [where usr = usr and rest = rest]) (simp_all add: select_ok assms)
  with Cons a show ?case by simp
qed

lemma patched_selection:
  assumes "filter (col_eq ''email'' (VStr email)) rows = usr # rest"
      and "patch ''email'' = None"
  shows "filter (col_eq ''email'' (VStr email)) (map (\<lambda>r. if P r then r ++ patch else r) rows)
         = map (\<lambda>r. if P r then r ++ patch else r) (usr # rest)"
proof -
  have "col_eq ''email'' (VStr email) \<circ> (\<lambda>r. if P r then r ++ patch else r)
        = col_eq ''email'' (VStr email)"
    using assms(2) by (auto simp: col_eq_def fun_eq_iff map_add_def)
  then show ?thesis
    using assms(1) by (simp add: filter_map del: list.map)
qed

lemma attempts_invariant:
  assumes sel: "\<not> raises e OpSelect ''users''"
      and upd: "\<not> raises e OpUpdate ''users''"
      and wrong: "\<forall>(pw, m) \<in> set tries. checkpw e pw h = Some False"
      and found: "filter (col_eq ''email'' (VStr email)) (tables w ''users'') = usr # rest"
      and uid: "usr ''id'' = Some uid"
      and hash: "usr ''password_hash'' = Some (VStr h)"
      and unlocked: "\<not> truthy (dict_get usr ''account_locked'' (VBool False))"
      and cnt: "dict_get usr ''failed_login_attempts'' (VInt 0) = VInt c"
  shows "\<exists>usr' rest'.
           filter (col_eq ''email'' (VStr email)) (tables (login_attempts e w email tries) ''users'')
             = usr' # rest'
         \<and> (truthy (dict_get usr' ''account_locked'' (VBool False))
            \<or> (dict_get usr' ''failed_login_attempts'' (VInt 0) = VInt (c + int (length tries))
               \<and> (tries \<noteq> [] \<longrightarrow> c + int (length tries) < 5)))"
  using wrong found uid hash unlocked cnt
proof (induction tries arbitrary: w usr rest c)
  case Nil
  then show ?case by simp
next
  case (Cons a tries)
  obtain pw m where a: "a = (pw, m)" by (cases a)
  let ?f = "\<lambda>r. if r ''id'' = Some uid then r ++ update_data (c + 1) else r"
  let ?w1 = "log_auth_attempt e email False
              (w\<lparr>tables := (tables w)(''users'' := map ?f (tables w ''users''))\<rparr>)"
  let ?usr1 = "usr ++ update_data (c + 1)"
  have vp: "verify_password e pw usr = Inr False"
    using Cons.prems(1,4) a by (simp add: verify_password_def)
  have step: "authenticate_user e w email pw m = (failure_response ''Invalid credentials'', ?w1)"
    by (rule wrong_password_result [where usr = usr and rest = rest])
       (simp_all add: select_ok sel Cons.prems vp upd)
  have tabs: "tables ?w1 ''users'' = map ?f (tables w ''users'')"
    by (simp add: log_auth_attempt_def add_log_def)
  have found1: "filter (col_eq ''email'' (VStr email)) (tables ?w1 ''users'') = ?usr1 # map ?f rest"
    unfolding tabs
    using patched_selection [OF Cons.prems(2), of "update_data (c + 1)" "\<lambda>r. r ''id'' = Some uid"]
          Cons.prems(3)
    by (simp add: update_data_facts)
  have uid1: "?usr1 ''id'' = Some uid"
    using Cons.prems(3) by (simp add: map_add_def update_data_facts)
  have hash1: "?usr1 ''password_hash'' = Some (VStr h)"
    using Cons.prems(4) by (simp add: map_add_def update_data_facts)
  have cnt1: "dict_get ?usr1 ''failed_login_attempts'' (VInt 0) = VInt (c + 1)"
    by (simp add: dict_get_def map_add_def update_data_facts)
  have rest_all: "\<forall>(pw, m) \<in> set tries. checkpw e pw h = Some False"
    using Cons.prems(1) by simp
  have unfold: "login_attempts e w email (a # tries) = login_attempts e ?w1 email tries"
    using a step by simp
  show ?case
  proof (cases "c + 1 \<ge> 5")
    case True
    have locked1: "truthy (dict_get ?usr1 ''account_locked'' (VBool False))"
      using True by (simp add: dict_get_def map_add_def update_data_def)
    have same: "login_attempts e ?w1 email tries = ?w1"
      by (rule locked_attempts_unchanged [OF sel found1 locked1])
    show ?thesis
      unfolding unfold same
      by (rule exI [of _ ?usr1], rule exI [of _ "map ?f rest"], rule conjI, rule found1,
          rule disjI1, rule locked1)
  next
    case False
    have acc: "update_data (c + 1) ''account_locked'' = None"
      using False by (simp add: update_data_facts)
    have unlocked1: "\<not> truthy (dict_get ?usr1 ''account_locked'' (VBool False))"
      using Cons.prems(5) acc by (simp add: dict_get_def map_add_def)
    from Cons.IH [OF rest_all found1 uid1 hash1 unlocked1 cnt1]
    obtain usr' rest' where
      f: "filter (col_eq ''email'' (VStr email)) (tables (login_attempts e ?w1 email tries) ''users'')
            = usr' # rest'"
      and d: "truthy (dict_get usr' ''account_locked'' (VBool False))
              \<or> (dict_get usr' ''failed_login_attempts'' (VInt 0) = VInt (c + 1 + int (length tries))
                 \<and> (tries \<noteq> [] \<longrightarrow> c + 1 + int (length tries) < 5))"
      by blast
    have d': "truthy (dict_get usr' ''account_locked'' (VBool False))
          \<or> (dict_get usr' ''failed_login_attempts'' (VInt 0) = VInt (c + int (length (a # tries)))
             \<and> (a # tries \<noteq> [] \<longrightarrow> c + int (length (a # tries)) < 5))"
    proof (cases "tries = []")
      case True
      have "usr' # rest' = ?usr1 # map ?f rest"
        using f found1 True by (simp only: login_attempts.simps)
      then have "usr' = ?usr1" by (simp only: list.inject)
      with cnt1 True \<open>\<not> 5 \<le> c + 1\<close> show ?thesis by simp
    next
      case False
      have "c + 1 + int (length tries) = c + int (length (a # tries))" by simp
      with d False show ?thesis by (simp only: list.distinct not_False_eq_True simp_thms)
    qed
    show ?thesis
      unfolding unfold
      by (rule exI [of _ usr'], rule exI [of _ rest'], rule conjI, rule f, rule d')
  qed
qed

lemma five_failures_then_locked:
  assumes sel: "\<not> raises e OpSelect ''users''"
      and upd: "\<not> raises e OpUpdate ''users''"
      and wrong: "\<forall>(pw, m) \<in> set tries. checkpw e pw h = Some False"
      and five: "length tries = 5"
      and found: "filter (col_eq ''email'' (VStr email)) (tables w ''users'') = usr # rest"
      and uid: "usr ''id'' = Some uid"
      and hash: "usr ''password_hash'' = Some (VStr h)"
      and cnt: "dict_get usr ''failed_login_attempts'' (VInt 0) = VInt c"
      and nonneg: "0 \<le> c"
  shows "authenticate_user e (login_attempts e w email tries) email password mfa_token =
           (failure_response ''Account is locked due to multiple failed login attempts'',
            login_attempts e w email tries)"
proof (cases "truthy (dict_get usr ''account_locked'' (VBool False))")
  case True
  have same: "login_attempts e w email tries = w"
    by (rule locked_attempts_unchanged [OF sel found True])
  show ?thesis unfolding same
    by (rule locked_result [where usr = usr and rest = rest]) (simp_all add: select_ok sel found True)
next
  case False
  from attempts_invariant [OF sel upd wrong found uid hash False cnt]
  obtain usr' rest' where
    f: "filter (col_eq ''email'' (VStr email)) (tables (login_attempts e w email tries) ''users'')
          = usr' # rest'"
    and d: "truthy (dict_get usr' ''account_locked'' (VBool False))
            \<or> (dict_get usr' ''failed_login_attempts'' (VInt 0) = VInt (c + int (length tries))
               \<and> (tries \<noteq> [] \<longrightarrow> c + int (length tries) < 5))"
    by blast
  have "tries \<noteq> []" using five by auto
  with d five nonneg have locked: "truthy (dict_get usr' ''account_locked'' (VBool False))"
    by auto
  show ?thesis
    by (rule locked_result [where usr = usr' and rest = rest']) (simp_all add: select_ok sel f locked)
qed

text \<open>
  Claim C2. When the record found for the e-mail has a true \<^verbatim>\<open>account_locked\<close>,
  \<^verbatim>\<open>authenticate_user\<close> returns the locked-account failure whatever the password and
  the MFA code are, and leaves the world as it was: no token is issued (a failure
  response has no \<^verbatim>\<open>tokens\<close> key) and no counter is written. In particular, when the
  select and update calls on \<^verbatim>\<open>users\<close> do not raise and the counter starts at a
  non-negative integer, five consecutive attempts with wrong passwords leave a world in
  which a sixth attempt, with any password, the correct one included, gets the
  locked-account failure and changes nothing.
\<close>

theorem locked_account_fails_closed:
  "(db_select e w ''users'' (col_eq ''email'' (VStr email)) = Inr (usr # rest)
      \<and> truthy (dict_get usr ''account_locked'' (VBool False))
     \<longrightarrow> authenticate_user e w email password mfa_token
           = (failure_response ''Account is locked due to multiple failed login attempts'', w))
   \<and> (\<not> raises e OpSelect ''users'' \<and> \<not> raises e OpUpdate ''users''
      \<and> filter (col_eq ''email'' (VStr email)) (tables w ''users'') = usr # rest
      \<and> usr ''id'' = Some uid \<and> usr ''password_hash'' = Some (VStr h)
      \<and> dict_get usr ''failed_login_attempts'' (VInt 0) = VInt c \<and> 0 \<le> c
      \<and> length tries = 5 \<and> (\<forall>(pw, m) \<in> set tries. checkpw e pw h = Some False)
     \<longrightarrow> authenticate_user e (login_attempts e w email tries) email password mfa_token
           = (failure_response ''Account is locked due to multiple failed login attempts'',
              login_attempts e w email tries))"
  using locked_result [where e = e and w = w and email = email and usr = usr and rest = rest
          and password = password and mfa_token = mfa_token]
        five_failures_then_locked [where e = e and tries = tries and h = h and email = email
          and w = w and usr = usr and rest = rest and uid = uid and c = c
          and password = password and mfa_token = mfa_token]
  by blast

theorem locked_account_fails_closed_witness:
  "authenticate_user demo_env (users_world [alice_row(''account_locked'' \<mapsto> VBool True)])
       ''alice@example.com'' ''Str0ng!Passw0rd123'' None
     = (failure_response ''Account is locked due to multiple failed login attempts'',
        users_world [alice_row(''account_locked'' \<mapsto> VBool True)])
   \<and> authenticate_user demo_env
         (login_attempts demo_env (users_world [alice_row]) ''alice@example.com''
            [(''a'', None), (''b'', None), (''c'', None), (''d'', None), (''e'', None)])
         ''alice@example.com'' ''Str0ng!Passw0rd123'' None
     = (failure_response ''Account is locked due to multiple failed login attempts'',
        login_attempts demo_env (users_world [alice_row]) ''alice@example.com''
            [(''a'', None), (''b'', None), (''c'', None), (''d'', None), (''e'', None)])"
proof -
  have a: "db_select demo_env (users_world [alice_row(''account_locked'' \<mapsto> VBool True)]) ''users''
             (col_eq ''email'' (VStr ''alice@example.com''))
           = Inr ((alice_row(''account_locked'' \<mapsto> VBool True)) # [])
         \<and> truthy (dict_get (alice_row(''account_locked'' \<mapsto> VBool True)) ''account_locked'' (VBool False))"
    by (simp add: db_select_def raises_def demo_env_def users_world_def col_eq_def alice_row_def
          dict_get_def)
  have b: "\<not> raises demo_env OpSelect ''users'' \<and> \<not> raises demo_env OpUpdate ''users''
      \<and> filter (col_eq ''email'' (VStr ''alice@example.com'')) (tables (users_world [alice_row]) ''users'')
          = alice_row # []
      \<and> alice_row ''id'' = Some (VStr ''u1'') \<and> alice_row ''password_hash'' = Some (VStr ''HASH'')
      \<and> dict_get alice_row ''failed_login_attempts'' (VInt 0) = VInt 0 \<and> (0::int) \<le> 0
      \<and> length [(''a'', None), (''b'', None), (''c'', None), (''d'', None), (''e'', None :: string option)] = 5
      \<and> (\<forall>(pw, m) \<in> set [(''a'', None), (''b'', None), (''c'', None), (''d'', None), (''e'', None :: string option)].
            checkpw demo_env pw ''HASH'' = Some False)"
    by (simp add: raises_def demo_env_def users_world_def col_eq_def alice_row_def dict_get_def)
  show ?thesis
    using a b
      locked_account_fails_closed [where e = demo_env
        and w = "users_world [alice_row(''account_locked'' \<mapsto> VBool True)]"
        and email = "''alice@example.com''"
        and usr = "alice_row(''account_locked'' \<mapsto> VBool True)" and rest = "[]"
        and password = "''Str0ng!Passw0rd123''" and mfa_token = None]
      locked_account_fails_closed [where e = demo_env and w = "users_world [alice_row]"
        and email = "''alice@example.com''" and usr = alice_row and rest = "[]"
        and uid = "VStr ''u1''" and h = "''HASH''" and c = 0
        and tries = "[(''a'', None), (''b'', None), (''c'', None), (''d'', None), (''e'', None)]"
        and password = "''Str0ng!Passw0rd123''" and mfa_token = None]
    by blast
qed

text \<open>
  Claim C6. On an unlocked account whose stored counter is the integer \<open>n\<close> (or is
  absent, read as 0), a wrong password makes exactly one store update, on the rows with
  the id of the record found: the update dictionary sets \<^verbatim>\<open>failed_login_attempts\<close> to
  \<open>n + 1\<close> and contains \<^verbatim>\<open>account_locked = True\<close> if and only if \<open>n + 1 \<ge> 5\<close>
  (the lock flag is left as it was otherwise). The response returned is the
  invalid-credentials failure, and the world returned with it is the updated one, so the
  write precedes the response. The update call is assumed not to raise.
\<close>

theorem wrong_password_increments_once:
  assumes sel: "db_select e w ''users'' (col_eq ''email'' (VStr email)) = Inr (usr # rest)"
      and unlocked: "\<not> truthy (dict_get usr ''account_locked'' (VBool False))"
      and wrong: "verify_password e password usr = Inr False"
      and cnt: "dict_get usr ''failed_login_attempts'' (VInt 0) = VInt n"
      and uid: "usr ''id'' = Some uid"
      and upd: "\<not> raises e OpUpdate ''users''"
  shows "(\<exists>w'. db_update e w ''users'' (update_data (n + 1)) (col_eq ''id'' uid) = Inr w'
            \<and> authenticate_user e w email password mfa_token
                = (failure_response ''Invalid credentials'', log_auth_attempt e email False w')
            \<and> tables w' = (tables w)(''users'' :=
                  map (\<lambda>r. if r ''id'' = Some uid then r ++ update_data (n + 1) else r)
                      (tables w ''users'')))
       \<and> (usr ++ update_data (n + 1)) ''failed_login_attempts'' = Some (VInt (n + 1))
       \<and> ((update_data (n + 1) ''account_locked'' = Some (VBool True)) = (n + 1 \<ge> 5))
       \<and> (n + 1 < 5 \<longrightarrow> (usr ++ update_data (n + 1)) ''account_locked'' = usr ''account_locked'')"
proof -
  have "authenticate_user e w email password mfa_token =
           (failure_response ''Invalid credentials'',
            log_auth_attempt e email False
              (w\<lparr>tables := (tables w)(''users'' :=
                   map (\<lambda>r. if r ''id'' = Some uid then r ++ update_data (n + 1) else r)
                       (tables w ''users''))\<rparr>))"
    by (rule wrong_password_result [OF sel unlocked wrong cnt uid upd])
  moreover have "db_update e w ''users'' (update_data (n + 1)) (col_eq ''id'' uid) =
     Inr (w\<lparr>tables := (tables w)(''users'' :=
                   map (\<lambda>r. if r ''id'' = Some uid then r ++ update_data (n + 1) else r)
                       (tables w ''users''))\<rparr>)"
    using upd by (simp add: db_update_def col_eq_def)
  ultimately show ?thesis
    by (simp add: update_data_facts map_add_def)
qed

theorem wrong_password_increments_once_witness:
  "fst (authenticate_user demo_env (users_world [alice_row(''failed_login_attempts'' \<mapsto> VInt 4)])
          ''alice@example.com'' ''wrong'' None) = failure_response ''Invalid credentials''
   \<and> ((alice_row(''failed_login_attempts'' \<mapsto> VInt 4)) ++ update_data (4 + 1)) ''failed_login_attempts''
       = Some (VInt 5)
   \<and> update_data (4 + 1) ''account_locked'' = Some (VBool True)"
proof -
  let ?u = "alice_row(''failed_login_attempts'' \<mapsto> VInt 4)"
  have sel: "db_select demo_env (users_world [?u]) ''users'' (col_eq ''email'' (VStr ''alice@example.com''))
             = Inr (?u # [])"
    by (simp add: db_select_def raises_def demo_env_def users_world_def col_eq_def alice_row_def)
  have unlocked: "\<not> truthy (dict_get ?u ''account_locked'' (VBool False))"
    by (simp add: dict_get_def alice_row_def)
  have wrong: "verify_password demo_env ''wrong'' ?u = Inr False"
    by (simp add: verify_password_def alice_row_def demo_env_def)
  have cnt: "dict_get ?u ''failed_login_attempts'' (VInt 0) = VInt 4"
    by (simp add: dict_get_def)
  have uid: "?u ''id'' = Some (VStr ''u1'')"
    by (simp add: alice_row_def)
  have upd: "\<not> raises demo_env OpUpdate ''users''"
    by (simp add: raises_def demo_env_def)
  show ?thesis
    using wrong_password_increments_once [OF sel unlocked wrong cnt uid upd, of None]
    by auto
qed

text \<open>
  Claim C8. An attempt with an e-mail that matches no user and an attempt with an
  existing e-mail and a wrong password (account unlocked, counter an integer, the update
  call not raising) get the same public response, the invalid-credentials failure,
  whatever passwords and MFA codes are sent.
\<close>

theorem unknown_user_and_wrong_password_alike:
  assumes none: "db_select e w ''users'' (col_eq ''email'' (VStr email1)) = Inr []"
      and sel: "db_select e w ''users'' (col_eq ''email'' (VStr email2)) = Inr (usr # rest)"
      and unlocked: "\<not> truthy (dict_get usr ''account_locked'' (VBool False))"
      and wrong: "verify_password e password2 usr = Inr False"
      and cnt: "dict_get usr ''failed_login_attempts'' (VInt 0) = VInt n"
      and uid: "usr ''id'' = Some uid"
      and upd: "\<not> raises e OpUpdate ''users''"
  shows "fst (authenticate_user e w email1 password1 mfa1)
           = fst (authenticate_user e w email2 password2 mfa2)
       \<and> fst (authenticate_user e w email1 password1 mfa1)
           = failure_response ''Invalid credentials''"
  by (simp add: not_found_result [OF none]
        wrong_password_result [OF sel unlocked wrong cnt uid upd])

theorem unknown_user_and_wrong_password_alike_witness:
  "fst (authenticate_user demo_env (users_world [alice_row]) ''bob@example.com'' ''pw'' None)
     = fst (authenticate_user demo_env (users_world [alice_row]) ''alice@example.com'' ''wrong'' None)"
proof -
  have none: "db_select demo_env (users_world [alice_row]) ''users''
                (col_eq ''email'' (VStr ''bob@example.com'')) = Inr []"
    by (simp add: db_select_def raises_def demo_env_def users_world_def col_eq_def alice_row_def)
  have sel: "db_select demo_env (users_world [alice_row]) ''users''
               (col_eq ''email'' (VStr ''alice@example.com'')) = Inr (alice_row # [])"
    by (simp add: db_select_def raises_def demo_env_def users_world_def col_eq_def alice_row_def)
  have unlocked: "\<not> truthy (dict_get alice_row ''account_locked'' (VBool False))"
    by (simp add: dict_get_def alice_row_def)
  have wrong: "verify_password demo_env ''wrong'' alice_row = Inr False"
    by (simp add: verify_password_def alice_row_def demo_env_def)
  have cnt: "dict_get alice_row ''failed_login_attempts'' (VInt 0) = VInt 0"
    by (simp add: dict_get_def alice_row_def)
  have uid: "alice_row ''id'' = Some (VStr ''u1'')"
    by (simp add: alice_row_def)
  have upd: "\<not> raises demo_env OpUpdate ''users''"
    by (simp add: raises_def demo_env_def)
  show ?thesis
    using unknown_user_and_wrong_password_alike [OF none sel unlocked wrong cnt uid upd,
            of "''pw''" None None]
    by simp
qed

lemma mfa_absent_result:
  assumes sel: "db_select e w ''users'' (col_eq ''email'' (VStr email)) = Inr (usr # rest)"
      and unlocked: "\<not> truthy (dict_get usr ''account_locked'' (VBool False))"
      and right: "verify_password e password usr = Inr True"
      and mfa: "truthy (dict_get usr ''mfa_enabled'' (VBool False))"
      and absent: "mfa_token = None \<or> mfa_token = Some []"
  shows "authenticate_user e w email password mfa_token = (mfa_required_response, w)"
  using absent mfa
  by (auto simp: authenticate_user_def select_found [OF sel unlocked] right mfa_check_def)

lemma mfa_wrong_result:
  assumes sel: "db_select e w ''users'' (col_eq ''email'' (VStr email)) = Inr (usr # rest)"
      and unlocked: "\<not> truthy (dict_get usr ''account_locked'' (VBool False))"
      and right: "verify_password e password usr = Inr True"
      and mfa: "truthy (dict_get usr ''mfa_enabled'' (VBool False))"
      and code: "code \<noteq> []"
      and enc: "usr ''mfa_secret'' = Some (VStr enc)"
      and dec: "fernet_decrypt e enc = Some secret"
      and bad: "\<not> totp_verify e secret code"
      and uid: "usr ''id'' = Some uid"
  shows "authenticate_user e w email password (Some code) =
           (failure_response ''Invalid MFA token'',
            log_security_event e ''MFA_FAILURE'' uid (''Invalid MFA token for '' @ email) w)"
  using mfa code enc dec bad uid
  by (simp add: authenticate_user_def select_found [OF sel unlocked] right mfa_check_def)

lemma mfa_frame:
  assumes sel: "db_select e w ''users'' (col_eq ''email'' (VStr email)) = Inr (usr # rest)"
      and unlocked: "\<not> truthy (dict_get usr ''account_locked'' (VBool False))"
      and right: "verify_password e password usr = Inr True"
      and mfa: "truthy (dict_get usr ''mfa_enabled'' (VBool False))"
      and notok: "\<not> (\<exists>code enc secret. mfa_token = Some code \<and> code \<noteq> []
                     \<and> usr ''mfa_secret'' = Some (VStr enc)
                     \<and> fernet_decrypt e enc = Some secret \<and> totp_verify e secret code)"
  shows "tables (snd (authenticate_user e w email password mfa_token)) = tables w
       \<and> success (fst (authenticate_user e w email password mfa_token)) = False
       \<and> tokens (fst (authenticate_user e w email password mfa_token)) = None"
  using mfa notok
  by (auto simp: authenticate_user_def select_found [OF sel unlocked] right mfa_check_def
        failure_response_def mfa_required_response_def
        split: option.splits pyval.splits)

text \<open>
  Claim C7. When the password verifies and \<^verbatim>\<open>mfa_enabled\<close> is true: with no MFA code
  (\<^verbatim>\<open>None\<close> or the empty string) the result is the MFA-required response, marked by
  \<^verbatim>\<open>requires_mfa = True\<close>, and the world is untouched; with a code that the one-time
  verification rejects the result is the failure \<^verbatim>\<open>Invalid MFA token\<close> and the world
  gains a log entry only; and whenever the code is absent or does not verify (decryption
  of the secret failing included), no table of the store changes, so neither
  \<^verbatim>\<open>failed_login_attempts\<close> nor any other field of a user record is written, and the
  response carries no tokens.
\<close>

theorem mfa_failure_writes_nothing:
  assumes sel: "db_select e w ''users'' (col_eq ''email'' (VStr email)) = Inr (usr # rest)"
      and unlocked: "\<not> truthy (dict_get usr ''account_locked'' (VBool False))"
      and right: "verify_password e password usr = Inr True"
      and mfa: "truthy (dict_get usr ''mfa_enabled'' (VBool False))"
  shows "((mfa_token = None \<or> mfa_token = Some [])
            \<longrightarrow> authenticate_user e w email password mfa_token = (mfa_required_response, w))
       \<and> (\<forall>code enc secret uid.
             mfa_token = Some code \<and> code \<noteq> [] \<and> usr ''mfa_secret'' = Some (VStr enc)
             \<and> fernet_decrypt e enc = Some secret \<and> \<not> totp_verify e secret code
             \<and> usr ''id'' = Some uid
            \<longrightarrow> authenticate_user e w email password mfa_token
                  = (failure_response ''Invalid MFA token'',
                     log_security_event e ''MFA_FAILURE'' uid (''Invalid MFA token for '' @ email) w))
       \<and> (\<not> (\<exists>code enc secret. mfa_token = Some code \<and> code \<noteq> []
                 \<and> usr ''mfa_secret'' = Some (VStr enc)
                 \<and> fernet_decrypt e enc = Some secret \<and> totp_verify e secret code)
            \<longrightarrow> tables (snd (authenticate_user e w email password mfa_token)) = tables w
                \<and> success (fst (authenticate_user e w email password mfa_token)) = False
                \<and> tokens (fst (authenticate_user e w email password mfa_token)) = None)"
proof (intro conjI impI allI)
  assume "mfa_token = None \<or> mfa_token = Some []"
  then show "authenticate_user e w email password mfa_token = (mfa_required_response, w)"
    by (rule mfa_absent_result [OF sel unlocked right mfa])
next
  fix code enc secret uid
  assume a: "mfa_token = Some code \<and> code \<noteq> [] \<and> usr ''mfa_secret'' = Some (VStr enc)
             \<and> fernet_decrypt e enc = Some secret \<and> \<not> totp_verify e secret code
             \<and> usr ''id'' = Some uid"
  then show "authenticate_user e w email password mfa_token
               = (failure_response ''Invalid MFA token'',
                  log_security_event e ''MFA_FAILURE'' uid (''Invalid MFA token for '' @ email) w)"
    using mfa_wrong_result [OF sel unlocked right mfa, of code enc secret uid] by simp
next
  assume n: "\<not> (\<exists>code enc secret. mfa_token = Some code \<and> code \<noteq> []
                 \<and> usr ''mfa_secret'' = Some (VStr enc)
                 \<and> fernet_decrypt e enc = Some secret \<and> totp_verify e secret code)"
  show "tables (snd (authenticate_user e w email password mfa_token)) = tables w"
    using mfa_frame [OF sel unlocked right mfa n] by simp
  show "success (fst (authenticate_user e w email password mfa_token)) = False"
    using mfa_frame [OF sel unlocked right mfa n] by simp
  show "tokens (fst (authenticate_user e w email password mfa_token)) = None"
    using mfa_frame [OF sel unlocked right mfa n] by simp
qed

theorem mfa_failure_writes_nothing_witness:
  "authenticate_user demo_env (users_world [alice_row(''mfa_enabled'' \<mapsto> VBool True)])
       ''alice@example.com'' ''Str0ng!Passw0rd123'' None
     = (mfa_required_response, users_world [alice_row(''mfa_enabled'' \<mapsto> VBool True)])
   \<and> authenticate_user demo_env (users_world [alice_row(''mfa_enabled'' \<mapsto> VBool True)])
       ''alice@example.com'' ''Str0ng!Passw0rd123'' (Some ''000000'')
     = (failure_response ''Invalid MFA token'',
        log_security_event demo_env ''MFA_FAILURE'' (VStr ''u1'')
          (''Invalid MFA token for '' @ ''alice@example.com'')
          (users_world [alice_row(''mfa_enabled'' \<mapsto> VBool True)]))
   \<and> tables (snd (authenticate_user demo_env (users_world [alice_row(''mfa_enabled'' \<mapsto> VBool True)])
       ''alice@example.com'' ''Str0ng!Passw0rd123'' (Some ''000000'')))
     = tables (users_world [alice_row(''mfa_enabled'' \<mapsto> VBool True)])"
proof -
  let ?u = "alice_row(''mfa_enabled'' \<mapsto> VBool True)"
  have sel: "db_select demo_env (users_world [?u]) ''users'' (col_eq ''email'' (VStr ''alice@example.com''))
             = Inr (?u # [])"
    by (simp add: db_select_def raises_def demo_env_def users_world_def col_eq_def alice_row_def)
  have unlocked: "\<not> truthy (dict_get ?u ''account_locked'' (VBool False))"
    by (simp add: dict_get_def alice_row_def)
  have right: "verify_password demo_env ''Str0ng!Passw0rd123'' ?u = Inr True"
    by (simp add: verify_password_def alice_row_def demo_env_def)
  have mfa: "truthy (dict_get ?u ''mfa_enabled'' (VBool False))"
    by (simp add: dict_get_def)
  have enc: "?u ''mfa_secret'' = Some (VStr ''ENC'')"
    by (simp add: alice_row_def)
  have dec: "fernet_decrypt demo_env ''ENC'' = Some ''SECRET''"
    by (simp add: demo_env_def)
  have bad: "\<not> totp_verify demo_env ''SECRET'' ''000000''"
    by (simp add: demo_env_def)
  have uid: "?u ''id'' = Some (VStr ''u1'')"
    by (simp add: alice_row_def)
  have notok: "\<not> (\<exists>code enc secret. Some ''000000'' = Some code \<and> code \<noteq> []
                 \<and> ?u ''mfa_secret'' = Some (VStr enc)
                 \<and> fernet_decrypt demo_env enc = Some secret \<and> totp_verify demo_env secret code)"
    using enc dec bad by auto
  have absent: "authenticate_user demo_env (users_world [?u]) ''alice@example.com''
                  ''Str0ng!Passw0rd123'' None = (mfa_required_response, users_world [?u])"
    using mfa_failure_writes_nothing [OF sel unlocked right mfa, of None] by simp
  have wrong: "authenticate_user demo_env (users_world [?u]) ''alice@example.com''
                  ''Str0ng!Passw0rd123'' (Some ''000000'')
               = (failure_response ''Invalid MFA token'',
                  log_security_event demo_env ''MFA_FAILURE'' (VStr ''u1'')
                    (''Invalid MFA token for '' @ ''alice@example.com'') (users_world [?u]))"
    using mfa_failure_writes_nothing [OF sel unlocked right mfa, of "Some ''000000''"]
          enc dec bad uid by simp
  have frame: "tables (snd (authenticate_user demo_env (users_world [?u]) ''alice@example.com''
                  ''Str0ng!Passw0rd123'' (Some ''000000''))) = tables (users_world [?u])"
    using mfa_failure_writes_nothing [OF sel unlocked right mfa, of "Some ''000000''"] notok
    by blast
  show ?thesis using absent wrong frame by simp
qed

section \<open>Data protection manager: properties\<close>

lemma export_tables_tables:
  "tables (snd (export_tables e u ts (d, w))) = tables w"
  by (induction ts arbitrary: d w) (auto simp: db_select_def split: sum.splits)

lemma export_tables_data:
  "fst (export_tables e u ts (d, w)) t =
     (if t \<in> set ts
      then Some (if raises e OpSelect t then []
                 else filter (col_eq ''user_id'' (VStr u)) (tables w t))
      else d t)"
proof (induction ts arbitrary: d w)
  case Nil
  show ?case by simp
next
  case (Cons a ts)
  show ?case
    by (cases "raises e OpSelect a") (simp_all add: db_select_def Cons.IH add_log_def)
qed

lemma log_data_access_tables:
  "tables (log_data_access e w u dt act ip ag det) =
     (if raises e OpInsert ''audit_logs'' then tables w
      else (tables w)(''audit_logs'' := tables w ''audit_logs'' @ [audit_record e u dt act ip ag det]))"
  by (simp add: log_data_access_def db_insert_def)

lemma export_user_data_bundle:
  "fst (export_user_data e w u) =
     \<lparr> bundle_user_id = u, export_timestamp = utcnow e,
       data = fst (export_tables e u tables_to_export (Map.empty, w)) \<rparr>"
  by (simp add: export_user_data_def split: prod.splits)

lemma export_user_data_tables:
  "tables (snd (export_user_data e w u)) =
     (if raises e OpInsert ''audit_logs'' then tables w
      else (tables w)(''audit_logs'' := tables w ''audit_logs''
             @ [audit_record e u ''all_data'' ''export'' ''system'' ''data_export_system''
                  (Some ''Full data export for GDPR compliance'')]))"
proof -
  obtain d w1 where x: "export_tables e u tables_to_export (Map.empty, w) = (d, w1)"
    by (cases "export_tables e u tables_to_export (Map.empty, w)")
  have "tables w1 = tables w"
    using export_tables_tables [of e u tables_to_export Map.empty w] x by simp
  then show ?thesis
    by (simp add: export_user_data_def x log_data_access_tables)
qed

lemma all_data_classification:
  "audit_record e u ''all_data'' act ip ag det ''classification'' = Some (VStr ''internal'')"
  by (simp add: audit_record_def get_data_classification_def retention_policies_def)

lemma delete_tables_tables:
  "tables (delete_tables e u ts w) t =
     (if t \<in> set ts \<and> \<not> raises e OpDelete t
      then filter (\<lambda>r. \<not> col_eq ''user_id'' (VStr u) r) (tables w t)
      else tables w t)"
proof (induction ts arbitrary: w)
  case Nil
  show ?case by simp
next
  case (Cons a ts)
  show ?case
    by (cases "raises e OpDelete a") (auto simp: db_delete_def Cons.IH add_log_def)
qed

lemma archive_user_data_tables:
  "archive_user_data e w u b = Inr w' \<Longrightarrow> t \<noteq> ''archived_user_data'' \<Longrightarrow> tables w' t = tables w t"
  by (auto simp: archive_user_data_def db_insert_def add_log_def split: option.splits if_splits)

lemma delete_user_data_result:
  "fst (delete_user_data e w u af) =
     (\<not> (af \<and> (bundle_hash e (fst (export_user_data e w u)) = None
                \<or> bundle_encrypt e (fst (export_user_data e w u)) = None)))"
  by (auto simp: delete_user_data_def archive_user_data_def db_insert_def Let_def
        split: prod.splits option.splits sum.splits)

lemma delete_user_data_tables:
  assumes "t \<noteq> ''audit_logs''" and "t \<noteq> ''archived_user_data''"
  shows "tables (snd (delete_user_data e w u af)) t =
     (if fst (delete_user_data e w u af) \<and> t \<in> set tables_to_delete \<and> \<not> raises e OpDelete t
      then filter (\<lambda>r. \<not> col_eq ''user_id'' (VStr u) r) (tables w t)
      else tables w t)"
proof (cases af)
  case False
  then show ?thesis
    using assms
    by (simp add: delete_user_data_def Let_def delete_tables_tables log_data_access_tables)
next
  case True
  obtain b w1 where x: "export_user_data e w u = (b, w1)"
    by (cases "export_user_data e w u")
  have t1: "tables w1 t = tables w t"
    using export_user_data_tables [of e w u] x assms by simp
  show ?thesis
  proof (cases "archive_user_data e w1 u b")
    case (Inl err)
    then show ?thesis
      using True x t1 by (simp add: delete_user_data_def)
  next
    case (Inr w2)
    have "tables w2 t = tables w t"
      using archive_user_data_tables [OF Inr assms(2)] t1 by simp
    then show ?thesis
      using True x Inr assms
      by (simp add: delete_user_data_def Let_def delete_tables_tables log_data_access_tables)
  qed
qed

lemma delete_list_names:
  "t \<in> set tables_to_delete \<Longrightarrow> t \<noteq> ''audit_logs'' \<and> t \<noteq> ''archived_user_data''"
  by (auto simp: tables_to_delete_def)

lemma same_tables: "set tables_to_delete = set tables_to_export"
  by (auto simp: tables_to_delete_def tables_to_export_def)

text \<open>
  Claim C3, as the code has it. Every call of \<^verbatim>\<open>export_user_data\<close> returns a bundle
  with the user id, the export timestamp and one collection for each of the eight tables
  of \<^verbatim>\<open>tables_to_export\<close> (the user's rows of that table, or the empty list when the
  select raised). When the insert into \<^verbatim>\<open>audit_logs\<close> does not raise, exactly one
  audit record is appended, for the action \<^verbatim>\<open>export\<close>, and its classification is
  \<^verbatim>\<open>internal\<close>: the data type logged is \<^verbatim>\<open>all_data\<close>, which has no retention
  policy, so \<^verbatim>\<open>get_data_classification\<close> answers its default. No other table changes.
\<close>

theorem export_bundle_and_audit:
  "bundle_user_id (fst (export_user_data e w u)) = u
   \<and> export_timestamp (fst (export_user_data e w u)) = utcnow e
   \<and> dom (data (fst (export_user_data e w u))) = set tables_to_export
   \<and> (\<forall>t \<in> set tables_to_export.
         data (fst (export_user_data e w u)) t
           = Some (if raises e OpSelect t then []
                   else filter (col_eq ''user_id'' (VStr u)) (tables w t)))
   \<and> (\<not> raises e OpInsert ''audit_logs'' \<longrightarrow>
         (\<exists>rec. tables (snd (export_user_data e w u)) ''audit_logs'' = tables w ''audit_logs'' @ [rec]
              \<and> rec ''user_id'' = Some (VStr u)
              \<and> rec ''action'' = Some (VStr ''export'')
              \<and> rec ''classification'' = Some (VStr ''internal'')))
   \<and> (\<forall>t. t \<noteq> ''audit_logs'' \<longrightarrow> tables (snd (export_user_data e w u)) t = tables w t)"
proof (intro conjI)
  show "bundle_user_id (fst (export_user_data e w u)) = u"
    by (simp add: export_user_data_bundle)
  show "export_timestamp (fst (export_user_data e w u)) = utcnow e"
    by (simp add: export_user_data_bundle)
  show "dom (data (fst (export_user_data e w u))) = set tables_to_export"
    by (auto simp: export_user_data_bundle export_tables_data dom_def split: if_splits)
  show "\<forall>t \<in> set tables_to_export.
         data (fst (export_user_data e w u)) t
           = Some (if raises e OpSelect t then []
                   else filter (col_eq ''user_id'' (VStr u)) (tables w t))"
    by (simp add: export_user_data_bundle export_tables_data)
  show "\<not> raises e OpInsert ''audit_logs'' \<longrightarrow>
         (\<exists>rec. tables (snd (export_user_data e w u)) ''audit_logs'' = tables w ''audit_logs'' @ [rec]
              \<and> rec ''user_id'' = Some (VStr u)
              \<and> rec ''action'' = Some (VStr ''export'')
              \<and> rec ''classification'' = Some (VStr ''internal''))"
    by (simp add: export_user_data_tables all_data_classification) (simp add: audit_record_def)
  show "\<forall>t. t \<noteq> ''audit_logs'' \<longrightarrow> tables (snd (export_user_data e w u)) t = tables w t"
    by (simp add: export_user_data_tables)
qed

theorem export_bundle_and_audit_witness:
  "data (fst (export_user_data demo_env (world_of [(''journal_entries'', [journal_row])]) ''u1''))
       ''journal_entries'' = Some [journal_row]
   \<and> (\<exists>rec. tables (snd (export_user_data demo_env (world_of [(''journal_entries'', [journal_row])]) ''u1''))
               ''audit_logs'' = tables (world_of [(''journal_entries'', [journal_row])]) ''audit_logs'' @ [rec]
            \<and> rec ''classification'' = Some (VStr ''internal''))
   \<and> tables (snd (export_user_data demo_env (world_of [(''journal_entries'', [journal_row])]) ''u1''))
        ''journal_entries'' = [journal_row]"
proof -
  let ?w = "world_of [(''journal_entries'', [journal_row])]"
  have m: "''journal_entries'' \<in> set tables_to_export"
    by (simp add: tables_to_export_def)
  have s: "\<not> raises demo_env OpSelect ''journal_entries''"
    by (simp add: raises_def demo_env_def)
  have i: "\<not> raises demo_env OpInsert ''audit_logs''"
    by (simp add: raises_def demo_env_def)
  have f: "filter (col_eq ''user_id'' (VStr ''u1'')) (tables ?w ''journal_entries'') = [journal_row]"
    by (simp add: world_of_def col_eq_def journal_row_def)
  have n: "''journal_entries'' \<noteq> ''audit_logs''" by simp
  have t: "tables ?w ''journal_entries'' = [journal_row]"
    by (simp add: world_of_def)
  from export_bundle_and_audit [of demo_env ?w "''u1''"]
  have a: "\<forall>t \<in> set tables_to_export.
         data (fst (export_user_data demo_env ?w ''u1'')) t
           = Some (if raises demo_env OpSelect t then []
                   else filter (col_eq ''user_id'' (VStr ''u1'')) (tables ?w t))"
   and b: "\<not> raises demo_env OpInsert ''audit_logs'' \<longrightarrow>
         (\<exists>rec. tables (snd (export_user_data demo_env ?w ''u1'')) ''audit_logs''
                  = tables ?w ''audit_logs'' @ [rec]
              \<and> rec ''user_id'' = Some (VStr ''u1'')
              \<and> rec ''action'' = Some (VStr ''export'')
              \<and> rec ''classification'' = Some (VStr ''internal''))"
   and c: "\<forall>t. t \<noteq> ''audit_logs'' \<longrightarrow> tables (snd (export_user_data demo_env ?w ''u1'')) t = tables ?w t"
    by blast+
  have 1: "data (fst (export_user_data demo_env ?w ''u1'')) ''journal_entries'' = Some [journal_row]"
    using a m s f by simp
  have 2: "\<exists>rec. tables (snd (export_user_data demo_env ?w ''u1'')) ''audit_logs''
                  = tables ?w ''audit_logs'' @ [rec]
              \<and> rec ''classification'' = Some (VStr ''internal'')"
    using b i by blast
  have 3: "tables (snd (export_user_data demo_env ?w ''u1'')) ''journal_entries'' = [journal_row]"
    using c n t by simp
  show ?thesis using 1 2 3 by blast
qed

text \<open>
  Claim C3 as stated fails: the audit record written for an export is classified
  \<^verbatim>\<open>internal\<close>, not \<^verbatim>\<open>confidential\<close>.
\<close>

theorem export_audit_not_confidential:
  "length (tables (snd (export_user_data demo_env (world_of [(''journal_entries'', [journal_row])]) ''u1''))
             ''audit_logs'') = 1
   \<and> (tables (snd (export_user_data demo_env (world_of [(''journal_entries'', [journal_row])]) ''u1''))
             ''audit_logs'' ! 0) ''classification'' = Some (VStr ''internal'')
   \<and> (tables (snd (export_user_data demo_env (world_of [(''journal_entries'', [journal_row])]) ''u1''))
             ''audit_logs'' ! 0) ''classification'' \<noteq> Some (VStr ''confidential'')"
  by (simp add: export_user_data_tables raises_def demo_env_def world_of_def all_data_classification)

text \<open>
  Claim C9. When \<^verbatim>\<open>delete_user_data\<close> reports success and none of its deletes raised,
  an export of the same user from the resulting world (in any environment) has the empty
  list for every exported table; the tables deleted and the tables exported are the same
  set.
\<close>

theorem delete_then_export_empty:
  assumes ok: "fst (delete_user_data e w u af) = True"
      and nofault: "\<forall>t \<in> set tables_to_delete. \<not> raises e OpDelete t"
  shows "(\<forall>t \<in> set tables_to_export.
            data (fst (export_user_data e' (snd (delete_user_data e w u af)) u)) t = Some [])
         \<and> set tables_to_delete = set tables_to_export"
proof -
  have "data (fst (export_user_data e' (snd (delete_user_data e w u af)) u)) t = Some []"
    if t: "t \<in> set tables_to_export" for t
  proof -
    have td: "t \<in> set tables_to_delete" using t same_tables by simp
    have "tables (snd (delete_user_data e w u af)) t
            = filter (\<lambda>r. \<not> col_eq ''user_id'' (VStr u) r) (tables w t)"
      using delete_user_data_tables [of t e w u af] delete_list_names [OF td] ok nofault td
      by simp
    then have "filter (col_eq ''user_id'' (VStr u)) (tables (snd (delete_user_data e w u af)) t) = []"
      by (simp add: filter_empty_conv)
    then show ?thesis
      using t by (simp add: export_user_data_bundle export_tables_data)
  qed
  then show ?thesis using same_tables by blast
qed

theorem delete_then_export_empty_witness:
  "data (fst (export_user_data demo_env
           (snd (delete_user_data demo_env (world_of [(''journal_entries'', [journal_row])]) ''u1'' True))
           ''u1'')) ''journal_entries'' = Some []"
proof -
  let ?w = "world_of [(''journal_entries'', [journal_row])]"
  have ok: "fst (delete_user_data demo_env ?w ''u1'' True) = True"
    by (simp add: delete_user_data_result demo_env_def)
  have nofault: "\<forall>t \<in> set tables_to_delete. \<not> raises demo_env OpDelete t"
    by (simp add: raises_def demo_env_def)
  have m: "''journal_entries'' \<in> set tables_to_export"
    by (simp add: tables_to_export_def)
  show ?thesis
    using delete_then_export_empty [OF ok nofault, of demo_env] m by blast
qed

text \<open>
  Claim C10. \<^verbatim>\<open>delete_user_data\<close> returns \<^verbatim>\<open>False\<close> exactly when archiving was asked
  for and building the archive record raised, which happens before the deletion loop;
  the deletes that raise have no influence on the result. A table whose delete raised
  keeps all its rows, so \<^verbatim>\<open>True\<close> can be returned with every row of the user still
  stored.
\<close>

theorem delete_reports_success_despite_failures:
  "fst (delete_user_data e w u af)
     = (\<not> (af \<and> (bundle_hash e (fst (export_user_data e w u)) = None
                 \<or> bundle_encrypt e (fst (export_user_data e w u)) = None)))
   \<and> (\<forall>t \<in> set tables_to_delete.
         raises e OpDelete t \<longrightarrow> tables (snd (delete_user_data e w u af)) t = tables w t)"
proof -
  have "tables (snd (delete_user_data e w u af)) t = tables w t"
    if "t \<in> set tables_to_delete" and "raises e OpDelete t" for t
    using delete_user_data_tables [of t e w u af] delete_list_names [OF that(1)] that(2) by simp
  then show ?thesis
    using delete_user_data_result [of e w u af] by blast
qed

theorem delete_reports_success_despite_failures_witness:
  "fst (delete_user_data failing_deletes (world_of [(''journal_entries'', [journal_row])]) ''u1'' True) = True
   \<and> tables (snd (delete_user_data failing_deletes (world_of [(''journal_entries'', [journal_row])]) ''u1'' True))
        ''journal_entries'' = [journal_row]"
proof -
  let ?w = "world_of [(''journal_entries'', [journal_row])]"
  have h: "\<not> (True \<and> (bundle_hash failing_deletes (fst (export_user_data failing_deletes ?w ''u1'')) = None
                 \<or> bundle_encrypt failing_deletes (fst (export_user_data failing_deletes ?w ''u1'')) = None))"
    by (simp add: failing_deletes_def demo_env_def)
  have m: "''journal_entries'' \<in> set tables_to_delete"
    by (simp add: tables_to_delete_def)
  have r: "raises failing_deletes OpDelete ''journal_entries''"
    by (simp add: raises_def failing_deletes_def tables_to_delete_def)
  have t: "tables ?w ''journal_entries'' = [journal_row]"
    by (simp add: world_of_def)
  show ?thesis
    using delete_reports_success_despite_failures [of failing_deletes ?w "''u1''" True] h m r t
    by auto
qed

subsection \<open>Consent reduction\<close>

lemma latest_consents_first:
  assumes "\<forall>p \<in> set ps. p ''consent_type'' \<noteq> None \<and> p ''granted'' \<noteq> None"
  shows "\<exists>m. latest_consents ps acc = Inr m
           \<and> (\<forall>c. m c = (case acc c of
                           Some v \<Rightarrow> Some v
                         | None \<Rightarrow> (case find (\<lambda>p. p ''consent_type'' = Some c) ps of
                                      None \<Rightarrow> None
                                    | Some p \<Rightarrow> p ''granted'')))"
  using assms
proof (induction ps arbitrary: acc)
  case Nil
  show ?case by (simp split: option.splits)
next
  case (Cons p ps)
  from Cons.prems obtain ct g where ct: "p ''consent_type'' = Some ct" and g: "p ''granted'' = Some g"
    by auto
  have rest: "\<forall>p \<in> set ps. p ''consent_type'' \<noteq> None \<and> p ''granted'' \<noteq> None"
    using Cons.prems by simp
  show ?case
  proof (cases "acc ct = None")
    case True
    from Cons.IH [OF rest, of "acc(ct \<mapsto> g)"] obtain m where
      m: "latest_consents ps (acc(ct \<mapsto> g)) = Inr m"
      and mc: "\<forall>c. m c = (case (acc(ct \<mapsto> g)) c of
                           Some v \<Rightarrow> Some v
                         | None \<Rightarrow> (case find (\<lambda>p. p ''consent_type'' = Some c) ps of
                                      None \<Rightarrow> None
                                    | Some p \<Rightarrow> p ''granted''))"
      by blast
    have "latest_consents (p # ps) acc = Inr m"
      using ct g True m by simp
    moreover have "m c = (case acc c of
                           Some v \<Rightarrow> Some v
                         | None \<Rightarrow> (case find (\<lambda>p. p ''consent_type'' = Some c) (p # ps) of
                                      None \<Rightarrow> None
                                    | Some p \<Rightarrow> p ''granted''))" for c
      using mc [rule_format, of c] ct g True by (cases "c = ct") (auto split: option.splits)
    ultimately show ?thesis by blast
  next
    case False
    from Cons.IH [OF rest, of acc] obtain m where
      m: "latest_consents ps acc = Inr m"
      and mc: "\<forall>c. m c = (case acc c of
                           Some v \<Rightarrow> Some v
                         | None \<Rightarrow> (case find (\<lambda>p. p ''consent_type'' = Some c) ps of
                                      None \<Rightarrow> None
                                    | Some p \<Rightarrow> p ''granted''))"
      by blast
    have "latest_consents (p # ps) acc = Inr m"
      using ct False m by auto
    moreover have "m c = (case acc c of
                           Some v \<Rightarrow> Some v
                         | None \<Rightarrow> (case find (\<lambda>p. p ''consent_type'' = Some c) (p # ps) of
                                      None \<Rightarrow> None
                                    | Some p \<Rightarrow> p ''granted''))" for c
      using mc [rule_format, of c] ct False by (cases "c = ct") (auto split: option.splits)
    ultimately show ?thesis by blast
  qed
qed

lemma find_sorted_least:
  fixes f :: "'a \<Rightarrow> int"
  assumes "sorted (map f ys)" and "r \<in> set ys" and "P r"
      and "\<forall>x \<in> set ys. P x \<longrightarrow> x = r \<or> f r < f x"
  shows "find P ys = Some r"
  using assms
proof (induction ys)
  case Nil
  then show ?case by simp
next
  case (Cons y ys)
  show ?case
  proof (cases "P y")
    case True
    have "y = r"
    proof (rule ccontr)
      assume ne: "y \<noteq> r"
      with Cons.prems(4) True have lt: "f r < f y" by auto
      from ne Cons.prems(2) have "r \<in> set ys" by auto
      with Cons.prems(1) have "f y \<le> f r" by auto
      with lt show False by simp
    qed
    with True show ?thesis by simp
  next
    case False
    with Cons.prems(3) have "y \<noteq> r" by auto
    with Cons.prems(2) have "r \<in> set ys" by auto
    moreover have "sorted (map f ys)" using Cons.prems(1) by simp
    ultimately have "find P ys = Some r"
      using Cons.IH Cons.prems(3,4) by simp
    with False show ?thesis by simp
  qed
qed

lemma find_append_none:
  "find P xs = None \<Longrightarrow> find P (xs @ ys) = find P ys"
  by (induction xs) (auto split: if_splits)

lemma find_order_desc:
  assumes r_in: "r \<in> set rows" and Pr: "P r" and r_ts: "r k = Some (VInt t)"
      and newest: "\<forall>x \<in> set rows. P x \<longrightarrow> x = r \<or> (\<exists>t'. x k = Some (VInt t') \<and> t' < t)"
  shows "find P (order_desc k rows) = Some r"
proof -
  let ?nulls = "filter (\<lambda>x. int_col k x = None) rows"
  let ?ints = "filter (\<lambda>x. int_col k x \<noteq> None) rows"
  let ?f = "\<lambda>x. - the (int_col k x)"
  have rt: "int_col k r = Some t" using r_ts by (simp add: int_col_def)
  have "\<forall>x \<in> set ?nulls. \<not> P x"
  proof
    fix x assume x: "x \<in> set ?nulls"
    show "\<not> P x"
    proof
      assume "P x"
      with newest x have "x = r \<or> (\<exists>t'. x k = Some (VInt t') \<and> t' < t)" by auto
      then have "int_col k x \<noteq> None" using rt by (auto simp: int_col_def)
      with x show False by simp
    qed
  qed
  then have none: "find P ?nulls = None"
    by (auto simp: find_None_iff)
  have "find P (sort_key ?f ?ints) = Some r"
  proof (rule find_sorted_least [where f = ?f])
    show "sorted (map ?f (sort_key ?f ?ints))" by (rule sorted_sort_key)
    show "r \<in> set (sort_key ?f ?ints)" using r_in rt by simp
    show "P r" by (rule Pr)
    show "\<forall>x \<in> set (sort_key ?f ?ints). P x \<longrightarrow> x = r \<or> ?f r < ?f x"
    proof (intro ballI impI)
      fix x assume x: "x \<in> set (sort_key ?f ?ints)" and px: "P x"
      then have "x \<in> set rows" by simp
      with newest px have "x = r \<or> (\<exists>t'. x k = Some (VInt t') \<and> t' < t)" by auto
      then show "x = r \<or> ?f r < ?f x"
        using rt by (auto simp: int_col_def)
    qed
  qed
  then show ?thesis
    unfolding order_desc_def using find_append_none [OF none] by simp
qed

lemma find_mapped:
  "find P (map f xs) = map_option f (find (P \<circ> f) xs)"
  by (induction xs) simp_all

lemma consents_of_rows:
  assumes sel: "\<not> raises e OpSelect ''user_consents''"
      and r_in: "r \<in> set (tables w ''user_consents'')"
      and r_user: "r ''user_id'' = Some (VStr uid)"
      and r_ts: "r ''timestamp'' = Some (VInt t)"
      and newest: "\<forall>x \<in> set (tables w ''user_consents'').
                     x ''user_id'' = Some (VStr uid)
                     \<and> dict_get x ''consent_type'' VNone = dict_get r ''consent_type'' VNone
                     \<longrightarrow> x = r \<or> (\<exists>t'. x ''timestamp'' = Some (VInt t') \<and> t' < t)"
  shows "fst (get_user_consents e w uid) (dict_get r ''consent_type'' VNone)
           = Some (dict_get r ''granted'' VNone)"
proof -
  let ?c = "dict_get r ''consent_type'' VNone"
  let ?rows = "filter (col_eq ''user_id'' (VStr uid)) (tables w ''user_consents'')"
  let ?P = "\<lambda>x. dict_get x ''consent_type'' VNone = ?c"
  let ?proj = "select_columns [''consent_type'', ''granted'']"
  let ?ps = "map ?proj (order_desc ''timestamp'' ?rows)"
  have r_rows: "r \<in> set ?rows" using r_in r_user by (simp add: col_eq_def)
  have nw: "\<forall>x \<in> set ?rows. ?P x \<longrightarrow> x = r \<or> (\<exists>t'. x ''timestamp'' = Some (VInt t') \<and> t' < t)"
    using newest by (simp add: col_eq_def)
  have f: "find ?P (order_desc ''timestamp'' ?rows) = Some r"
    by (rule find_order_desc [OF r_rows _ r_ts nw]) simp
  have comp: "(\<lambda>p. p ''consent_type'' = Some ?c) \<circ> ?proj = ?P"
    by (auto simp: fun_eq_iff select_columns_def)
  have fp: "find (\<lambda>p. p ''consent_type'' = Some ?c) ?ps = Some (?proj r)"
    by (simp add: find_mapped comp f)
  have wf: "\<forall>p \<in> set ?ps. p ''consent_type'' \<noteq> None \<and> p ''granted'' \<noteq> None"
    by (simp add: select_columns_def)
  from latest_consents_first [OF wf, of Map.empty] obtain m where
    m: "latest_consents ?ps Map.empty = Inr m"
    and mc: "\<forall>c. m c = (case Map.empty c of
                           Some v \<Rightarrow> Some v
                         | None \<Rightarrow> (case find (\<lambda>p. p ''consent_type'' = Some c) ?ps of
                                      None \<Rightarrow> None
                                    | Some p \<Rightarrow> p ''granted''))"
    by blast
  have "m ?c = Some (dict_get r ''granted'' VNone)"
    using mc [rule_format, of ?c] fp by (simp add: select_columns_def)
  moreover have "get_user_consents e w uid = (m, w)"
    using sel m by (simp add: get_user_consents_def db_select_def)
  ultimately show ?thesis by simp
qed

text \<open>
  Claim C4. Let \<open>r\<close> be a consent record of the user with an integer timestamp such
  that every other record of the same user and consent type has a strictly smaller
  integer timestamp. When the select does not raise, \<^verbatim>\<open>get_user_consents\<close> returns
  for that consent type the \<^verbatim>\<open>granted\<close> value of \<open>r\<close>, and it does so for every
  world whose \<^verbatim>\<open>user_consents\<close> table holds the same records, in whatever order
  they were inserted. (A column without a value reads as \<^verbatim>\<open>None\<close>.) The witness is
  the example of the specification: records (A, true, 1), (A, false, 3), (A, true, 2)
  give A = false.
\<close>

theorem latest_consent_by_timestamp:
  assumes sel: "\<not> raises e OpSelect ''user_consents''"
      and r_in: "r \<in> set (tables w ''user_consents'')"
      and r_user: "r ''user_id'' = Some (VStr uid)"
      and r_ts: "r ''timestamp'' = Some (VInt t)"
      and newest: "\<forall>x \<in> set (tables w ''user_consents'').
                     x ''user_id'' = Some (VStr uid)
                     \<and> dict_get x ''consent_type'' VNone = dict_get r ''consent_type'' VNone
                     \<longrightarrow> x = r \<or> (\<exists>t'. x ''timestamp'' = Some (VInt t') \<and> t' < t)"
  shows "\<forall>w' :: world. set (tables w' ''user_consents'') = set (tables w ''user_consents'')
           \<longrightarrow> fst (get_user_consents e w' uid) (dict_get r ''consent_type'' VNone)
                 = Some (dict_get r ''granted'' VNone)"
proof (intro allI impI)
  fix w' :: world
  assume s: "set (tables w' ''user_consents'') = set (tables w ''user_consents'')"
  show "fst (get_user_consents e w' uid) (dict_get r ''consent_type'' VNone)
          = Some (dict_get r ''granted'' VNone)"
    by (rule consents_of_rows [OF sel _ r_user r_ts]) (use s r_in newest in auto)
qed

theorem latest_consent_by_timestamp_witness:
  "fst (get_user_consents demo_env
         (world_of [(''user_consents'',
            [consent_row ''u1'' ''analytics'' True 1, consent_row ''u1'' ''analytics'' False 3,
             consent_row ''u1'' ''analytics'' True 2])]) ''u1'') (VStr ''analytics'')
     = Some (VBool False)"
proof -
  let ?rows = "[consent_row ''u1'' ''analytics'' True 1, consent_row ''u1'' ''analytics'' False 3,
                consent_row ''u1'' ''analytics'' True 2]"
  let ?w = "world_of [(''user_consents'', ?rows)]"
  let ?r = "consent_row ''u1'' ''analytics'' False 3"
  have tabs: "tables ?w ''user_consents'' = ?rows" by (simp add: world_of_def)
  have sel: "\<not> raises demo_env OpSelect ''user_consents''"
    by (simp add: raises_def demo_env_def)
  have r_in: "?r \<in> set (tables ?w ''user_consents'')" unfolding tabs by simp
  have r_user: "?r ''user_id'' = Some (VStr ''u1'')" by (simp add: consent_row_def)
  have r_ts: "?r ''timestamp'' = Some (VInt 3)" by (simp add: consent_row_def)
  have ts: "\<And>g t. consent_row ''u1'' ''analytics'' g t ''timestamp'' = Some (VInt t)"
    by (simp add: consent_row_def)
  have newest: "\<forall>x \<in> set (tables ?w ''user_consents'').
                     x ''user_id'' = Some (VStr ''u1'')
                     \<and> dict_get x ''consent_type'' VNone = dict_get ?r ''consent_type'' VNone
                     \<longrightarrow> x = ?r \<or> (\<exists>t'. x ''timestamp'' = Some (VInt t') \<and> t' < 3)"
    unfolding tabs by (simp add: ts)
  have c: "dict_get ?r ''consent_type'' VNone = VStr ''analytics''"
    by (simp add: dict_get_def consent_row_def)
  have g: "dict_get ?r ''granted'' VNone = VBool False"
    by (simp add: dict_get_def consent_row_def)
  show ?thesis
    using latest_consent_by_timestamp [OF sel r_in r_user r_ts newest] c g by simp
qed

subsection \<open>Retention sweep\<close>

lemma no_faults: "faults e = [] \<Longrightarrow> \<not> raises e oper t"
  by (simp add: raises_def)

lemma sweep_records_ok:
  assumes nf: "faults e = []"
      and enc: "\<forall>r. row_encrypt e r \<noteq> None"
      and ids: "\<forall>rec \<in> set records. rec ''id'' \<noteq> None"
      and dt: "dt \<noteq> ''archived_records''"
  shows "\<exists>w'. sweep_records e dt p records w = Inr w'
           \<and> log w' = log w
           \<and> (\<forall>t. t \<noteq> dt \<and> t \<noteq> ''archived_records'' \<longrightarrow> tables w' t = tables w t)
           \<and> tables w' dt = filter (\<lambda>r. \<forall>rec \<in> set records. r ''id'' \<noteq> rec ''id'') (tables w dt)"
  using ids
proof (induction records arbitrary: w)
  case Nil
  show ?case by simp
next
  case (Cons rec records)
  from Cons.prems obtain rid where rid: "rec ''id'' = Some rid" by auto
  from enc have "row_encrypt e rec \<noteq> None" by blast
  then obtain c where c: "row_encrypt e rec = Some c" by blast
  define w1 where "w1 = (if archive_before_delete p
      then w\<lparr>tables := (tables w)(''archived_records'' := tables w ''archived_records'' @
             [[''original_table'' \<mapsto> VStr dt, ''original_id'' \<mapsto> rid,
               ''user_id'' \<mapsto> dict_get rec ''user_id'' VNone,
               ''archived_at'' \<mapsto> VInt (utcnow e), ''encrypted_data'' \<mapsto> VStr c]])\<rparr>
      else w)"
  define w2 where "w2 = w1\<lparr>tables := (tables w1)(dt := filter (\<lambda>r. \<not> col_eq ''id'' rid r) (tables w1 dt))\<rparr>"
  have step: "sweep_records e dt p (rec # records) w = sweep_records e dt p records w2"
    using rid c no_faults [OF nf]
    by (simp add: archive_record_def db_insert_def db_delete_def w1_def w2_def)
  have l2: "log w2 = log w" by (simp add: w2_def w1_def)
  have o2: "\<forall>t. t \<noteq> dt \<and> t \<noteq> ''archived_records'' \<longrightarrow> tables w2 t = tables w t"
    by (simp add: w2_def w1_def)
  have d2: "tables w2 dt = filter (\<lambda>r. r ''id'' \<noteq> rec ''id'') (tables w dt)"
    using dt rid by (simp add: w2_def w1_def col_eq_def)
  have rest: "\<forall>rec \<in> set records. rec ''id'' \<noteq> None" using Cons.prems by simp
  from Cons.IH [OF rest, of w2] obtain w' where
    r: "sweep_records e dt p records w2 = Inr w'"
    and l: "log w' = log w2"
    and o: "\<forall>t. t \<noteq> dt \<and> t \<noteq> ''archived_records'' \<longrightarrow> tables w' t = tables w2 t"
    and d: "tables w' dt = filter (\<lambda>r. \<forall>rec \<in> set records. r ''id'' \<noteq> rec ''id'') (tables w2 dt)"
    by blast
  have "tables w' dt = filter (\<lambda>r. \<forall>rec' \<in> set (rec # records). r ''id'' \<noteq> rec' ''id'') (tables w dt)"
    unfolding d d2 by (simp add: conj_commute)
  with step r l l2 o o2 show ?case by simp
qed

lemma sweep_category_clean_id:
  assumes "\<not> raises e OpSelect (fst item)" and "auto_delete (snd item) \<longrightarrow> old_rows e w item = []"
  shows "sweep_category e item w = w"
  using assms by (simp add: sweep_category_def Let_def db_select_def old_rows_def)

lemma sweep_category_effect:
  assumes nf: "faults e = []"
      and enc: "\<forall>r. row_encrypt e r \<noteq> None"
      and ids: "\<forall>r \<in> set (tables w (fst item)). r ''id'' \<noteq> None"
      and dt: "fst item \<noteq> ''archived_records''"
  shows "(\<forall>t. t \<noteq> fst item \<and> t \<noteq> ''archived_records''
             \<longrightarrow> tables (sweep_category e item w) t = tables w t)
       \<and> (auto_delete (snd item) \<longrightarrow> old_rows e (sweep_category e item w) item = [])"
proof (cases "auto_delete (snd item)")
  case False
  then show ?thesis by (simp add: sweep_category_def Let_def)
next
  case True
  let ?cut = "utcnow e - retention_period_days (snd item) * 86400"
  let ?rows = "filter (col_lt ''created_at'' ?cut) (tables w (fst item))"
  let ?records = "map (select_columns [''id'', ''user_id'', ''created_at'']) ?rows"
  have rids: "\<forall>rec \<in> set ?records. rec ''id'' \<noteq> None"
    by (simp add: select_columns_def)
  from sweep_records_ok [OF nf enc rids dt, of "snd item" w] obtain w' where
    r: "sweep_records e (fst item) (snd item) ?records w = Inr w'"
    and o: "\<forall>t. t \<noteq> fst item \<and> t \<noteq> ''archived_records'' \<longrightarrow> tables w' t = tables w t"
    and d: "tables w' (fst item)
              = filter (\<lambda>r. \<forall>rec \<in> set ?records. r ''id'' \<noteq> rec ''id'') (tables w (fst item))"
    by blast
  have sc: "tables (sweep_category e item w) = tables w'"
    using True r no_faults [OF nf]
    by (simp add: sweep_category_def Let_def db_select_def add_log_def)
  have "filter (col_lt ''created_at'' ?cut) (tables w' (fst item)) = []"
  proof -
    have "\<not> (\<forall>rec \<in> set ?records. r ''id'' \<noteq> rec ''id'')"
      if rin: "r \<in> set (tables w (fst item))" and old: "col_lt ''created_at'' ?cut r" for r
    proof -
      from ids rin obtain v where v: "r ''id'' = Some v" by auto
      have "select_columns [''id'', ''user_id'', ''created_at''] r \<in> set ?records"
        using rin old by simp
      moreover have "select_columns [''id'', ''user_id'', ''created_at''] r ''id'' = r ''id''"
        using v by (simp add: select_columns_def dict_get_def)
      ultimately show ?thesis by metis
    qed
    then show ?thesis
      unfolding d by (auto simp: filter_empty_conv)
  qed
  then show ?thesis
    using o by (simp add: sc old_rows_def)
qed

lemma fold_sweep_clean:
  assumes nf: "faults e = []"
      and enc: "\<forall>r. row_encrypt e r \<noteq> None"
  shows "distinct (map fst ps) \<Longrightarrow> \<forall>item \<in> set ps. fst item \<noteq> ''archived_records'' \<Longrightarrow>
         \<forall>item \<in> set ps. \<forall>r \<in> set (tables w (fst item)). r ''id'' \<noteq> None \<Longrightarrow>
         (\<forall>t. t \<notin> fst ` set ps \<and> t \<noteq> ''archived_records''
              \<longrightarrow> tables (fold (sweep_category e) ps w) t = tables w t)
         \<and> (\<forall>item \<in> set ps. auto_delete (snd item)
              \<longrightarrow> old_rows e (fold (sweep_category e) ps w) item = [])"
proof (induction ps arbitrary: w)
  case Nil
  show ?case by simp
next
  case (Cons item ps)
  let ?w1 = "sweep_category e item w"
  let ?wf = "fold (sweep_category e) ps ?w1"
  have dt: "fst item \<noteq> ''archived_records''" using Cons.prems(2) by simp
  have ids: "\<forall>r \<in> set (tables w (fst item)). r ''id'' \<noteq> None" using Cons.prems(3) by simp
  from sweep_category_effect [OF nf enc ids dt]
  have o1: "\<forall>t. t \<noteq> fst item \<and> t \<noteq> ''archived_records'' \<longrightarrow> tables ?w1 t = tables w t"
    and c1: "auto_delete (snd item) \<longrightarrow> old_rows e ?w1 item = []"
    by blast+
  have dist: "distinct (map fst ps)" and notin: "fst item \<notin> fst ` set ps"
    using Cons.prems(1) by auto
  have arch: "\<forall>it \<in> set ps. fst it \<noteq> ''archived_records''" using Cons.prems(2) by simp
  have ids1: "\<forall>it \<in> set ps. \<forall>r \<in> set (tables ?w1 (fst it)). r ''id'' \<noteq> None"
  proof
    fix it assume it: "it \<in> set ps"
    then have "fst it \<in> fst ` set ps" by (rule imageI)
    then have "fst it \<noteq> fst item" using notin by metis
    moreover have "fst it \<noteq> ''archived_records''" using arch it by simp
    ultimately have "tables ?w1 (fst it) = tables w (fst it)" using o1 by simp
    then show "\<forall>r \<in> set (tables ?w1 (fst it)). r ''id'' \<noteq> None"
      using Cons.prems(3) it by simp
  qed
  from Cons.IH [OF dist arch ids1]
  have o2: "\<forall>t. t \<notin> fst ` set ps \<and> t \<noteq> ''archived_records'' \<longrightarrow> tables ?wf t = tables ?w1 t"
    and c2: "\<forall>it \<in> set ps. auto_delete (snd it) \<longrightarrow> old_rows e ?wf it = []"
    by blast+
  have same: "tables ?wf (fst item) = tables ?w1 (fst item)"
    using o2 notin dt by simp
  have citem: "auto_delete (snd item) \<longrightarrow> old_rows e ?wf item = []"
    using c1 same by (simp add: old_rows_def)
  have others: "\<forall>t. t \<notin> fst ` set (item # ps) \<and> t \<noteq> ''archived_records''
                  \<longrightarrow> tables ?wf t = tables w t"
    using o1 o2 by simp
  show ?case
    using others citem c2 by simp
qed

lemma fold_sweep_id:
  "\<forall>item \<in> set ps. \<not> raises e OpSelect (fst item)
                    \<and> (auto_delete (snd item) \<longrightarrow> old_rows e w item = [])
   \<Longrightarrow> fold (sweep_category e) ps w = w"
  by (induction ps) (simp_all add: sweep_category_clean_id)

lemma policy_names:
  "distinct (map fst retention_policies)"
  "\<forall>item \<in> set retention_policies. fst item \<noteq> ''archived_records''"
  by (simp_all add: retention_policies_def)

text \<open>
  Claim C5, as the code has it. When no store call raises, encryption succeeds and the
  rows of the governed tables carry an id, a second \<^verbatim>\<open>apply_retention_policies\<close> at
  the same clock reading changes nothing: the first run has removed every row older than
  its category's cutoff, so the second run selects no record.
\<close>

theorem retention_sweep_idempotent:
  assumes nf: "faults e = []"
      and enc: "\<forall>r. row_encrypt e r \<noteq> None"
      and ids: "\<forall>item \<in> set retention_policies. \<forall>r \<in> set (tables w (fst item)). r ''id'' \<noteq> None"
  shows "apply_retention_policies e (apply_retention_policies e w) = apply_retention_policies e w"
proof -
  have "\<forall>item \<in> set retention_policies. auto_delete (snd item)
          \<longrightarrow> old_rows e (apply_retention_policies e w) item = []"
    using fold_sweep_clean [OF nf enc policy_names ids]
    by (simp add: apply_retention_policies_def)
  then have "fold (sweep_category e) retention_policies (apply_retention_policies e w)
               = apply_retention_policies e w"
    using no_faults [OF nf] by (intro fold_sweep_id) simp
  then show ?thesis by (simp add: apply_retention_policies_def)
qed

theorem retention_sweep_idempotent_witness:
  "apply_retention_policies sweep_env
     (apply_retention_policies sweep_env (world_of [(''user_sessions'', [session_row])]))
   = apply_retention_policies sweep_env (world_of [(''user_sessions'', [session_row])])
   \<and> tables (apply_retention_policies sweep_env (world_of [(''user_sessions'', [session_row])]))
        ''user_sessions'' = []"
proof -
  have nf: "faults sweep_env = []" by (simp add: sweep_env_def demo_env_def)
  have enc: "\<forall>r. row_encrypt sweep_env r \<noteq> None" by (simp add: sweep_env_def demo_env_def)
  have ids: "\<forall>item \<in> set retention_policies.
               \<forall>r \<in> set (tables (world_of [(''user_sessions'', [session_row])]) (fst item)).
                 r ''id'' \<noteq> None"
    by (simp add: retention_policies_def world_of_def session_row_def)
  have swept: "tables (apply_retention_policies sweep_env (world_of [(''user_sessions'', [session_row])]))
                 ''user_sessions'' = []"
    by (simp add: apply_retention_policies_def retention_policies_def sweep_category_def
          db_select_def db_insert_def db_delete_def raises_def sweep_env_def demo_env_def
          world_of_def session_row_def col_lt_def col_eq_def archive_record_def
          select_columns_def dict_get_def add_log_def Let_def)
  show ?thesis using retention_sweep_idempotent [OF nf enc ids] swept by simp
qed

text \<open>
  Claim C5 as stated fails in its second half. \<^verbatim>\<open>_archive_record\<close> writes with a
  plain insert, which is not keyed by the original id: when a first run archives a
  record and its delete then raises, the next run archives the same record again, and
  \<^verbatim>\<open>archived_records\<close> holds two rows with the same \<^verbatim>\<open>original_id\<close>.
\<close>

theorem rerun_archives_twice:
  "length (tables (apply_retention_policies sweep_env
            (apply_retention_policies failing_session_delete
               (world_of [(''user_sessions'', [session_row])]))) ''archived_records'') = 2
   \<and> (tables (apply_retention_policies sweep_env
            (apply_retention_policies failing_session_delete
               (world_of [(''user_sessions'', [session_row])]))) ''archived_records'' ! 0) ''original_id''
       = Some (VStr ''s1'')
   \<and> (tables (apply_retention_policies sweep_env
            (apply_retention_policies failing_session_delete
               (world_of [(''user_sessions'', [session_row])]))) ''archived_records'' ! 1) ''original_id''
       = Some (VStr ''s1'')"
  by (simp add: apply_retention_policies_def retention_policies_def sweep_category_def
        db_select_def db_insert_def db_delete_def raises_def failing_session_delete_def
        sweep_env_def demo_env_def world_of_def session_row_def col_lt_def col_eq_def
        archive_record_def select_columns_def dict_get_def add_log_def Let_def)

end
